theory Spec2Isabelle
  imports Main "HOL-Library.Word"
begin

unbundle bit_operations_syntax

section \<open>Numbers\<close>

text \<open>
  Sizes, offsets, chunk indices and time stamps are natural numbers. JavaScript computes
  with doubles, which are exact on integers below \<open>2 ^ 53\<close>; the quotients below are the
  exact ones.

  A chunk size of zero makes the JavaScript quotient \<open>Infinity\<close> (positive total size) or
  \<open>NaN\<close> (total size zero). With \<open>Infinity\<close>, \<open>new BitSet\<close> throws \<open>RangeError\<close>, which
  \<open>bitmapLength\<close> below records. With \<open>NaN\<close> the bitmap has no bytes and no loop over
  its length runs, which is how a bitmap of length 0 behaves; the status then reports
  \<open>NaN\<close> chunks where the model says 0. Every statement about a chunk count assumes a
  positive chunk size. (For a chunk index the two agree even at zero: \<open>BitSet\<close> addresses
  \<open>Infinity\<close> and \<open>NaN\<close> as bit 0 of byte 0, which is where the quotient 0 of the model
  points.)
\<close>

type_synonym u8 = "8 word"

definition ceil_div :: "nat \<Rightarrow> nat \<Rightarrow> nat" where
  \<comment> \<open>\<open>Math.ceil(a / b)\<close>\<close>
  "ceil_div a b = (a + b - 1) div b"

definition bitmapLength :: "nat \<Rightarrow> nat \<Rightarrow> nat option" where
  \<comment> \<open>\<open>Math.max(1, Math.ceil(total / cs))\<close> as the length of a bitmap: \<open>None\<close> is
      \<open>Infinity\<close>, for which the typed array cannot be allocated; \<open>NaN\<close> acts as 0\<close>
  "bitmapLength sz cs =
     (if 0 < cs then Some (max 1 (ceil_div sz cs))
      else if 0 < sz then None
      else Some 0)"

section \<open>BitSet (uploadManager.js, class BitSet)\<close>

record BitSet =
  len :: nat
  bytes :: "u8 list"

definition BitSet_new :: "nat \<Rightarrow> BitSet" where
  \<comment> \<open>\<open>new Uint8Array(Math.ceil(length / 8))\<close> is zero-filled\<close>
  "BitSet_new n = \<lparr>len = n, bytes = replicate (ceil_div n 8) 0\<rparr>"

definition byteIndex :: "nat \<Rightarrow> int" where
  \<comment> \<open>\<open>(i / 8) | 0\<close>: the quotient is cut to an integer and wrapped to a signed 32-bit value\<close>
  "byteIndex i = sint (word_of_nat (i div 8) :: 32 word)"

definition bitMask :: "nat \<Rightarrow> u8" where
  \<comment> \<open>\<open>1 << (i % 8)\<close>\<close>
  "bitMask i = push_bit (i mod 8) 1"

definition BitSet_set :: "BitSet \<Rightarrow> nat \<Rightarrow> BitSet" where
  \<comment> \<open>\<open>this.bytes[k] |= mask\<close>: a typed array ignores a store outside \<open>[0, bytes.length)\<close>\<close>
  "BitSet_set b i =
     (let k = byteIndex i in
      if 0 \<le> k \<and> nat k < length (bytes b)
      then b\<lparr>bytes := (bytes b)[nat k := (bytes b ! nat k) OR bitMask i]\<rparr>
      else b)"

definition BitSet_has :: "BitSet \<Rightarrow> nat \<Rightarrow> bool" where
  \<comment> \<open>a typed array reads \<open>undefined\<close> outside its range, and \<open>undefined & mask\<close> is 0\<close>
  "BitSet_has b i =
     (let k = byteIndex i in
      if 0 \<le> k \<and> nat k < length (bytes b)
      then (bytes b ! nat k) AND bitMask i \<noteq> 0
      else False)"

definition BitSet_toArray :: "BitSet \<Rightarrow> nat list" where
  "BitSet_toArray b = filter (BitSet_has b) [0..<len b]"

definition BitSet_fromArray :: "nat list \<Rightarrow> nat \<Rightarrow> BitSet" where
  "BitSet_fromArray arr n = foldl BitSet_set (BitSet_new n) arr"

section \<open>Descriptors, snapshots and the disk\<close>

record upload =
  uid :: string
  filename :: string
  totalSize :: nat
  chunkSize :: nat
  createdAt :: nat
  filePath :: string
  completed :: bool
  receivedBitset :: BitSet

text \<open>The object that \<open>JSON.stringify\<close> writes to \<open><id>.json\<close> and \<open>JSON.parse\<close> reads back.\<close>

record meta =
  m_id :: string
  m_filename :: string
  m_totalSize :: nat
  m_chunkSize :: nat
  m_createdAt :: nat
  m_receivedChunks :: "nat list"
  m_filePath :: string
  m_completed :: bool

text \<open>
  A file either holds the JSON text of a snapshot, or bytes that \<open>JSON.parse\<close> rejects
  (a destination file, or the torn prefix that a failed snapshot write leaves behind).
\<close>

datatype fcontent = Json meta | Bytes "u8 list"

datatype error =
    upload_not_found
  | chunk_write_in_progress
  | transient_write_failure
  | io_error string
  | type_error
  | range_error
  | missing_chunks "nat list"

text \<open>What the environment decides for one file-system call: it succeeds, or fails with \<open>err.code\<close>.\<close>

datatype io_outcome = io_ok | io_fail string

text \<open>
  A failing \<open>writeFile\<close> leaves the path untouched (\<open>None\<close>) or holding a torn prefix of
  the text; or it reports its error only after the whole text has reached the file
  (\<open>write_fail_late\<close>, a failure on closing).
\<close>

datatype write_outcome = write_ok | write_fail string "u8 list option" | write_fail_late string


text \<open>
  The per-chunk write stream either finishes, or emits an error with a code after some
  number of payload bytes have reached the file.
\<close>

datatype stream_outcome = finish | stream_error string nat

record state =
  baseDir :: string
  uploads :: "string \<rightharpoonup> upload"
  locks :: "string \<rightharpoonup> nat set"
  dirty :: "string list"
  debounceTimer :: bool
  disk :: "string \<rightharpoonup> fcontent"

definition metaPath :: "state \<Rightarrow> string \<Rightarrow> string" where
  \<comment> \<open>\<open>_metaPath\<close>; \<open>path.join\<close> of a directory and a name without separators\<close>
  "metaPath st i = baseDir st @ ''/'' @ i @ ''.json''"

definition dataPath :: "state \<Rightarrow> string \<Rightarrow> string \<Rightarrow> string" where
  \<comment> \<open>\<open>_filePath\<close>\<close>
  "dataPath st i name = baseDir st @ ''/'' @ name @ ''.'' @ i"

definition basename :: "string \<Rightarrow> string" where
  \<comment> \<open>\<open>path.basename\<close> on POSIX: the last component, trailing separators dropped\<close>
  "basename p =
     (let t = dropWhile (\<lambda>c. c = CHR ''/'') (rev p)
      in rev (takeWhile (\<lambda>c. c \<noteq> CHR ''/'') t))"

definition writeFileAsync ::
  "(string \<rightharpoonup> fcontent) \<Rightarrow> string \<Rightarrow> meta \<Rightarrow> write_outcome \<Rightarrow> (error + unit) \<times> (string \<rightharpoonup> fcontent)" where
  "writeFileAsync d p m out =
     (case out of
        write_ok \<Rightarrow> (Inr (), d(p \<mapsto> Json m))
      | write_fail c left \<Rightarrow>
          (Inl (io_error c), (case left of None \<Rightarrow> d | Some bs \<Rightarrow> d(p \<mapsto> Bytes bs)))
      | write_fail_late c \<Rightarrow> (Inl (io_error c), d(p \<mapsto> Json m)))"

definition unlinkAsync ::
  "(string \<rightharpoonup> fcontent) \<Rightarrow> string \<Rightarrow> io_outcome \<Rightarrow> (error + unit) \<times> (string \<rightharpoonup> fcontent)" where
  "unlinkAsync d p out =
     (case out of
        io_fail c \<Rightarrow> (Inl (io_error c), d)
      | io_ok \<Rightarrow> (if d p = None then (Inl (io_error ''ENOENT''), d) else (Inr (), d(p := None))))"

definition old_bytes :: "fcontent \<Rightarrow> u8 list" where
  \<comment> \<open>the text of a snapshot is not modelled: bytes written over one leave a file that no longer parses\<close>
  "old_bytes c = (case c of Bytes bs \<Rightarrow> bs | Json m \<Rightarrow> [])"

definition pwrite :: "u8 list \<Rightarrow> nat \<Rightarrow> u8 list \<Rightarrow> u8 list" where
  \<comment> \<open>a positional write; a gap between the end of the file and the offset reads as zeros\<close>
  "pwrite old off data =
     take off old @ replicate (off - length old) 0 @ data @ drop (off + length data) old"

section \<open>UploadManager (uploadManager.js)\<close>

definition scheduleFlush :: "state \<Rightarrow> string \<Rightarrow> state" where
  \<comment> \<open>\<open>_scheduleFlush\<close>: \<open>dirty\<close> is a Set in insertion order; the timer is armed once\<close>
  "scheduleFlush st i =
     st\<lparr>dirty := (if i \<in> set (dirty st) then dirty st else dirty st @ [i]),
        debounceTimer := True\<rparr>"

definition metaOf :: "upload \<Rightarrow> meta" where
  \<comment> \<open>the \<open>meta\<close> object built in \<open>_flushDirty\<close>\<close>
  "metaOf up =
     \<lparr>m_id = uid up, m_filename = filename up, m_totalSize = totalSize up,
      m_chunkSize = chunkSize up, m_createdAt = createdAt up,
      m_receivedChunks = BitSet_toArray (receivedBitset up),
      m_filePath = filePath up, m_completed = completed up\<rparr>"

definition flushOne :: "(string \<Rightarrow> write_outcome) \<Rightarrow> state \<Rightarrow> string \<Rightarrow> state" where
  \<comment> \<open>one round of the loop in \<open>_flushDirty\<close>; a failed write is logged and the loop goes on\<close>
  "flushOne w st i =
     (case uploads st i of
        None \<Rightarrow> st
      | Some up \<Rightarrow> st\<lparr>disk := snd (writeFileAsync (disk st) (metaPath st i) (metaOf up) (w i))\<rparr>)"

definition flushDirty :: "state \<Rightarrow> (string \<Rightarrow> write_outcome) \<Rightarrow> state" where
  \<comment> \<open>\<open>_flushDirty\<close>\<close>
  "flushDirty st w = foldl (flushOne w) (st\<lparr>dirty := [], debounceTimer := False\<rparr>) (dirty st)"

definition flushAllMetadata :: "state \<Rightarrow> (string \<Rightarrow> write_outcome) \<Rightarrow> state" where
  "flushAllMetadata st w =
     flushDirty (if debounceTimer st then st\<lparr>debounceTimer := False\<rparr> else st) w"

record create_args =
  a_filename :: string
  a_totalSize :: nat
  a_chunkSize :: "nat option"

record create_env =
  e_uuid :: string
  e_now :: nat
  e_writeMeta :: write_outcome
  e_open :: io_outcome
  e_close :: io_outcome
  e_truncate :: io_outcome

definition createUpload :: "state \<Rightarrow> create_args \<Rightarrow> create_env \<Rightarrow> (error + string) \<times> state" where
  \<comment> \<open>\<open>new BitSet(totalChunks)\<close> is evaluated, and may throw, before anything is written\<close>
  "createUpload st a env =
     (let i = e_uuid env;
          safeName = basename (a_filename a);
          fp = dataPath st i safeName;
          total = a_totalSize a;
          cs = (case a_chunkSize a of None \<Rightarrow> 64 * 1024 * 1024 | Some c \<Rightarrow> c)
      in case bitmapLength total cs of
           None \<Rightarrow> (Inl range_error, st)
         | Some totalChunks \<Rightarrow>
      (let up = \<lparr>uid = i, filename = safeName, totalSize = total, chunkSize = cs,
                createdAt = e_now env, filePath = fp, completed = False,
                receivedBitset = BitSet_new totalChunks\<rparr>;
          m = \<lparr>m_id = uid up, m_filename = filename up, m_totalSize = totalSize up,
               m_chunkSize = chunkSize up, m_createdAt = createdAt up,
               m_receivedChunks = [], m_filePath = filePath up, m_completed = False\<rparr>
      in case writeFileAsync (disk st) (metaPath st i) m (e_writeMeta env) of
           (Inl e, d1) \<Rightarrow> (Inl e, st\<lparr>disk := d1\<rparr>)
         | (Inr _, d1) \<Rightarrow>
             (case e_open env of
                io_fail c \<Rightarrow> (Inl (io_error c), st\<lparr>disk := d1\<rparr>)
              | io_ok \<Rightarrow>
                  (let d2 = d1(fp \<mapsto> Bytes []) in
                   case e_close env of
                     io_fail c \<Rightarrow> (Inl (io_error c), st\<lparr>disk := d2\<rparr>)
                   | io_ok \<Rightarrow>
                       (case e_truncate env of
                          io_fail c \<Rightarrow> (Inl (io_error c), st\<lparr>disk := d2\<rparr>)
                        | io_ok \<Rightarrow>
                            (Inr i,
                             scheduleFlush
                               (st\<lparr>disk := d2(fp \<mapsto> Bytes (replicate total 0)),
                                   uploads := (uploads st)(i \<mapsto> up),
                                   locks := (locks st)(i \<mapsto> {})\<rparr>) i))))))"

definition getUpload :: "state \<Rightarrow> string \<Rightarrow> upload option \<times> state" where
  \<comment> \<open>an exception while the snapshot is parsed or the bitmap is built is caught, and the
      result is \<open>null\<close>\<close>
  "getUpload st i =
     (case uploads st i of
        Some inMem \<Rightarrow> (Some inMem, st)
      | None \<Rightarrow>
          (case disk st (metaPath st i) of
             None \<Rightarrow> (None, st)
           | Some (Bytes bs) \<Rightarrow> (None, st)
           | Some (Json data) \<Rightarrow>
               (case bitmapLength (m_totalSize data) (m_chunkSize data) of
                  None \<Rightarrow> (None, st)
                | Some totalChunks \<Rightarrow>
               (let up = \<lparr>uid = m_id data, filename = m_filename data,
                          totalSize = m_totalSize data, chunkSize = m_chunkSize data,
                          createdAt = m_createdAt data, filePath = m_filePath data,
                          completed = m_completed data,
                          receivedBitset = BitSet_fromArray (m_receivedChunks data) totalChunks\<rparr>
                in (Some up,
                    st\<lparr>uploads := (uploads st)(i \<mapsto> up),
                       locks := (if locks st i = None then (locks st)(i \<mapsto> {}) else locks st)\<rparr>)))))"

definition getReceivedChunksArray :: "state \<Rightarrow> string \<Rightarrow> nat list \<times> state" where
  "getReceivedChunksArray st i =
     (case getUpload st i of
        (None, st1) \<Rightarrow> ([], st1)
      | (Some up, st1) \<Rightarrow> (BitSet_toArray (receivedBitset up), st1))"

record write_result =
  alreadyReceived :: bool
  written :: nat

datatype begin_result = Early write_result | Acquired upload nat

definition beginWrite :: "state \<Rightarrow> string \<Rightarrow> nat \<Rightarrow> (error + begin_result) \<times> state" where
  \<comment> \<open>\<open>writeChunkAt\<close> up to and including \<open>lockSet.add(chunkIndex)\<close>\<close>
  "beginWrite st i offset =
     (case getUpload st i of
        (None, st1) \<Rightarrow> (Inl upload_not_found, st1)
      | (Some up, st1) \<Rightarrow>
          (let chunkIndex = offset div chunkSize up in
           if BitSet_has (receivedBitset up) chunkIndex
           then (Inr (Early \<lparr>alreadyReceived = True, written = 0\<rparr>), st1)
           else
             (case locks st1 i of
                None \<Rightarrow> (Inl type_error, st1)
              | Some lockSet \<Rightarrow>
                  if chunkIndex \<in> lockSet then (Inl chunk_write_in_progress, st1)
                  else (Inr (Acquired up chunkIndex),
                        st1\<lparr>locks := (locks st1)(i \<mapsto> insert chunkIndex lockSet)\<rparr>))))"

definition doWrite ::
  "(string \<rightharpoonup> fcontent) \<Rightarrow> string \<Rightarrow> nat \<Rightarrow> u8 list \<Rightarrow> stream_outcome
     \<Rightarrow> (string + nat) \<times> (string \<rightharpoonup> fcontent)" where
  \<comment> \<open>the stream opened with flags \<open>r+\<close> at \<open>start: offset\<close>, fed by the payload\<close>
  "doWrite d p offset payload out =
     (case d p of
        None \<Rightarrow> (Inl ''ENOENT'', d)
      | Some c \<Rightarrow>
          (case out of
             finish \<Rightarrow>
               (Inr (length payload),
                if payload = [] then d else d(p \<mapsto> Bytes (pwrite (old_bytes c) offset payload)))
           | stream_error code k \<Rightarrow>
               (Inl code,
                if take k payload = [] then d
                else d(p \<mapsto> Bytes (pwrite (old_bytes c) offset (take k payload))))))"

definition unlock :: "state \<Rightarrow> string \<Rightarrow> nat \<Rightarrow> state" where
  \<comment> \<open>\<open>lockSet.delete(chunkIndex)\<close>\<close>
  "unlock st i chunkIndex =
     (case locks st i of
        None \<Rightarrow> st
      | Some lockSet \<Rightarrow> st\<lparr>locks := (locks st)(i \<mapsto> lockSet - {chunkIndex})\<rparr>)"

definition onFinish :: "state \<Rightarrow> string \<Rightarrow> upload \<Rightarrow> nat \<Rightarrow> state" where
  "onFinish st i up chunkIndex =
     unlock
       (scheduleFlush
          (st\<lparr>uploads :=
                (uploads st)(i \<mapsto> up\<lparr>receivedBitset := BitSet_set (receivedBitset up) chunkIndex\<rparr>)\<rparr>)
          i)
       i chunkIndex"

definition settleWrite ::
  "state \<Rightarrow> string \<Rightarrow> upload \<Rightarrow> nat \<Rightarrow> nat \<Rightarrow> u8 list \<Rightarrow> stream_outcome
     \<Rightarrow> (error + write_result) \<times> state" where
  \<comment> \<open>\<open>doWrite().catch(...)\<close> and the \<open>finally\<close> block\<close>
  "settleWrite st i up chunkIndex offset payload out =
     (case doWrite (disk st) (filePath up) offset payload out of
        (Inr n, d) \<Rightarrow>
          (Inr \<lparr>alreadyReceived = False, written = n\<rparr>,
           unlock (onFinish (st\<lparr>disk := d\<rparr>) i up chunkIndex) i chunkIndex)
      | (Inl code, d) \<Rightarrow>
          (Inl (if code = ''EBADF'' \<or> code = ''ERR_STREAM_PREMATURE_CLOSE''
                then transient_write_failure else io_error code),
           unlock (st\<lparr>disk := d\<rparr>) i chunkIndex))"

definition writeChunkAt ::
  "state \<Rightarrow> string \<Rightarrow> nat \<Rightarrow> u8 list \<Rightarrow> stream_outcome \<Rightarrow> (error + write_result) \<times> state" where
  \<comment> \<open>the payload stands for \<open>readStream\<close>; the source never reads \<open>expectedLength\<close>\<close>
  "writeChunkAt st i offset payload out =
     (case beginWrite st i offset of
        (Inl e, st1) \<Rightarrow> (Inl e, st1)
      | (Inr (Early r), st1) \<Rightarrow> (Inr r, st1)
      | (Inr (Acquired up chunkIndex), st2) \<Rightarrow> settleWrite st2 i up chunkIndex offset payload out)"

definition getMissingChunks :: "state \<Rightarrow> string \<Rightarrow> nat list \<times> state" where
  "getMissingChunks st i =
     (case getUpload st i of
        (None, st1) \<Rightarrow> ([], st1)
      | (Some up, st1) \<Rightarrow>
          (filter (\<lambda>k. \<not> BitSet_has (receivedBitset up) k)
             [0..<ceil_div (totalSize up) (chunkSize up)], st1))"

definition markCompleted :: "state \<Rightarrow> string \<Rightarrow> (error + unit) \<times> state" where
  "markCompleted st i =
     (case getUpload st i of
        (None, st1) \<Rightarrow> (Inl upload_not_found, st1)
      | (Some up, st1) \<Rightarrow>
          (Inr (), scheduleFlush (st1\<lparr>uploads := (uploads st1)(i \<mapsto> up\<lparr>completed := True\<rparr>)\<rparr>) i))"

definition abortUpload :: "state \<Rightarrow> string \<Rightarrow> io_outcome \<Rightarrow> io_outcome \<Rightarrow> (error + unit) \<times> state" where
  \<comment> \<open>both \<open>unlink\<close> calls sit in \<open>try\<close> blocks with empty handlers\<close>
  "abortUpload st i out1 out2 =
     (case getUpload st i of
        (None, st1) \<Rightarrow> (Inr (), st1)
      | (Some up, st1) \<Rightarrow>
          (let d1 = snd (unlinkAsync (disk st1) (filePath up) out1);
               d2 = snd (unlinkAsync d1 (metaPath st1 i) out2)
           in (Inr (),
               st1\<lparr>disk := d2,
                   uploads := (uploads st1)(i := None),
                   locks := (locks st1)(i := None),
                   dirty := removeAll i (dirty st1)\<rparr>)))"

section \<open>The serving layer (server.js)\<close>

record status =
  s_uploadId :: string
  s_filename :: string
  s_totalSize :: nat
  s_chunkSize :: nat
  s_totalChunks :: nat
  s_receivedChunks :: "nat list"
  s_receivedCount :: nat

definition getStatus :: "state \<Rightarrow> string \<Rightarrow> (error + status) \<times> state" where
  \<comment> \<open>the handler of \<open>GET /upload/:id/status\<close>\<close>
  "getStatus st i =
     (case getUpload st i of
        (None, st1) \<Rightarrow> (Inl upload_not_found, st1)
      | (Some up, st1) \<Rightarrow>
          (let totalChunks = ceil_div (totalSize up) (chunkSize up);
               (received, st2) = getReceivedChunksArray st1 i
           in (Inr \<lparr>s_uploadId = i, s_filename = filename up, s_totalSize = totalSize up,
                    s_chunkSize = chunkSize up, s_totalChunks = totalChunks,
                    s_receivedChunks = received, s_receivedCount = length received\<rparr>, st2)))"

definition completeUpload :: "state \<Rightarrow> string \<Rightarrow> (error + string) \<times> state" where
  \<comment> \<open>the handler of \<open>POST /upload/:id/complete\<close>; \<open>markCompleted\<close> is called and not awaited\<close>
  "completeUpload st i =
     (case getUpload st i of
        (None, st1) \<Rightarrow> (Inl upload_not_found, st1)
      | (Some up, st1) \<Rightarrow>
          (let (missing, st2) = getMissingChunks st1 i in
           if length missing > 0 then (Inl (missing_chunks missing), st2)
           else (Inr (filePath up), snd (markCompleted st2 i))))"

definition restart :: "state \<Rightarrow> state" where
  \<comment> \<open>a fresh \<open>new UploadManager(baseDir)\<close> over the same disk\<close>
  "restart st = st\<lparr>uploads := Map.empty, locks := Map.empty, dirty := [], debounceTimer := False\<rparr>"

section \<open>Runs of operations\<close>

text \<open>
  Each operation runs to its end before the next one starts; the argument of an
  operation carries what the environment decides during it.
\<close>

datatype op =
    Create create_args create_env
  | GetUpload string
  | GetReceived string
  | WriteChunk string nat "u8 list" stream_outcome
  | GetMissing string
  | MarkCompleted string
  | Abort string io_outcome io_outcome
  | FlushDirty "string \<Rightarrow> write_outcome"
  | FlushAll "string \<Rightarrow> write_outcome"
  | Status string
  | Complete string

fun step :: "state \<Rightarrow> op \<Rightarrow> state" where
  "step st (Create a env) = snd (createUpload st a env)"
| "step st (GetUpload i) = snd (getUpload st i)"
| "step st (GetReceived i) = snd (getReceivedChunksArray st i)"
| "step st (WriteChunk i offset payload out) = snd (writeChunkAt st i offset payload out)"
| "step st (GetMissing i) = snd (getMissingChunks st i)"
| "step st (MarkCompleted i) = snd (markCompleted st i)"
| "step st (Abort i out1 out2) = snd (abortUpload st i out1 out2)"
| "step st (FlushDirty w) = flushDirty st w"
| "step st (FlushAll w) = flushAllMetadata st w"
| "step st (Status i) = snd (getStatus st i)"
| "step st (Complete i) = snd (completeUpload st i)"

definition run :: "state \<Rightarrow> op list \<Rightarrow> state" where
  "run st ops = foldl step st ops"

fun keeps :: "string \<Rightarrow> op \<Rightarrow> bool" where
  \<comment> \<open>the operation neither aborts upload \<open>i\<close> nor draws \<open>i\<close> again as a fresh identifier\<close>
  "keeps i (Abort j out1 out2) = (j \<noteq> i)"
| "keeps i (Create a env) = (e_uuid env \<noteq> i)"
| "keeps i _ = True"

section \<open>Invariants\<close>

definition slot_ok :: "BitSet \<Rightarrow> nat \<Rightarrow> bool" where
  \<comment> \<open>the byte that index \<open>i\<close> addresses exists\<close>
  "slot_ok b i = (0 \<le> byteIndex i \<and> nat (byteIndex i) < length (bytes b))"

definition same_slot :: "nat \<Rightarrow> nat \<Rightarrow> bool" where
  \<comment> \<open>two indices address the same bit of the same byte\<close>
  "same_slot i j = (byteIndex i = byteIndex j \<and> i mod 8 = j mod 8)"

definition BitSet_wf :: "BitSet \<Rightarrow> bool" where
  "BitSet_wf b = (length (bytes b) = ceil_div (len b) 8)"

definition upload_wf :: "upload \<Rightarrow> bool" where
  \<comment> \<open>what \<open>createUpload\<close> and \<open>getUpload\<close> establish for a descriptor\<close>
  "upload_wf up =
     (0 < chunkSize up \<and> BitSet_wf (receivedBitset up) \<and>
      len (receivedBitset up) = max 1 (ceil_div (totalSize up) (chunkSize up)))"

definition registry_inv :: "state \<Rightarrow> bool" where
  \<comment> \<open>the pending sets and the dirty set only mention cached descriptors\<close>
  "registry_inv st =
     (dom (locks st) = dom (uploads st) \<and> set (dirty st) \<subseteq> dom (uploads st))"

definition snapshot_ok :: "meta \<Rightarrow> bool" where
  \<comment> \<open>the snapshot is what a flush writes for some well-formed descriptor\<close>
  "snapshot_ok m = (\<exists>up. upload_wf up \<and> m = metaOf up)"

definition state_ok :: "state \<Rightarrow> bool" where
  \<comment> \<open>what holds of every state that the operations reach from an empty manager\<close>
  "state_ok st =
     (registry_inv st
      \<and> (\<forall>i up. uploads st i = Some up \<longrightarrow> upload_wf up)
      \<and> (\<forall>p m. disk st p = Some (Json m) \<longrightarrow> snapshot_ok m))"

fun op_ok :: "op \<Rightarrow> bool" where
  \<comment> \<open>uploads are not created with a chunk size of zero\<close>
  "op_ok (Create a env) = (a_chunkSize a \<noteq> Some 0)"
| "op_ok _ = True"

definition chunks_agree :: "state \<Rightarrow> string \<Rightarrow> nat \<Rightarrow> bool" where
  \<comment> \<open>the bitmap of upload \<open>i\<close> has length \<open>n\<close>, its status reports \<open>n\<close> chunks, and the
      missing chunks are looked for in \<open>[0, n)\<close>\<close>
  "chunks_agree st i n =
     (case fst (getUpload st i) of
        None \<Rightarrow> False
      | Some up \<Rightarrow>
          len (receivedBitset up) = n
          \<and> (case fst (getStatus st i) of Inl e \<Rightarrow> False | Inr s \<Rightarrow> s_totalChunks s = n)
          \<and> fst (getMissingChunks st i) =
                filter (\<lambda>k. \<not> BitSet_has (receivedBitset up) k) [0..<n])"

section \<open>Example states\<close>

definition st0 :: state where
  "st0 = \<lparr>baseDir = ''/srv/uploads'', uploads = Map.empty, locks = Map.empty, dirty = [],
          debounceTimer = False, disk = Map.empty\<rparr>"

definition env_ok :: create_env where
  "env_ok = \<lparr>e_uuid = ''u1'', e_now = 1000, e_writeMeta = write_ok, e_open = io_ok,
             e_close = io_ok, e_truncate = io_ok\<rparr>"

definition args150 :: create_args where
  "args150 = \<lparr>a_filename = ''in/movie.bin'', a_totalSize = 150, a_chunkSize = Some 64\<rparr>"

definition st150 :: state where
  "st150 = snd (createUpload st0 args150 env_ok)"

definition st150w :: state where
  \<comment> \<open>the last chunk of the 150-byte upload has arrived\<close>
  "st150w = snd (writeChunkAt st150 ''u1'' 128 (replicate 22 7) finish)"

definition st150f :: state where
  \<comment> \<open>the snapshots are flushed, and the process starts again\<close>
  "st150f = restart (flushAllMetadata st150w (\<lambda>i. write_ok))"

definition args0 :: create_args where
  "args0 = \<lparr>a_filename = ''empty.bin'', a_totalSize = 0, a_chunkSize = Some 64\<rparr>"

definition st_empty :: state where
  \<comment> \<open>an upload of an empty file\<close>
  "st_empty = snd (createUpload st0 args0 env_ok)"

definition args640 :: create_args where
  "args640 = \<lparr>a_filename = ''data.bin'', a_totalSize = 640, a_chunkSize = Some 64\<rparr>"

definition st640 :: state where
  \<comment> \<open>ten chunks, of which 0, 1, 2 and 5 have arrived\<close>
  "st640 =
     run st0
       [Create args640 env_ok,
        WriteChunk ''u1'' 0 [1] finish, WriteChunk ''u1'' 64 [1] finish,
        WriteChunk ''u1'' 128 [1] finish, WriteChunk ''u1'' 320 [1] finish]"

definition st150c :: state where
  \<comment> \<open>all three chunks of the 150-byte upload have arrived\<close>
  "st150c =
     run st150w [WriteChunk ''u1'' 0 (replicate 64 1) finish, WriteChunk ''u1'' 64 (replicate 64 2) finish]"

definition env_nospc :: create_env where
  \<comment> \<open>the snapshot is written, then the disk is full when the file is sized\<close>
  "env_nospc = env_ok\<lparr>e_truncate := io_fail ''ENOSPC''\<rparr>"




definition args_cs0 :: create_args where
  "args_cs0 = \<lparr>a_filename = ''movie.bin'', a_totalSize = 150, a_chunkSize = Some 0\<rparr>"


definition ops_example :: "op list" where
  "ops_example =
     [WriteChunk ''u1'' 0 [1] finish, MarkCompleted ''u1'', Abort ''u2'' io_ok io_ok,
      FlushAll (\<lambda>i. write_ok), Complete ''u1'', Create args150 (env_ok\<lparr>e_uuid := ''u2''\<rparr>),
      WriteChunk ''u1'' 64 [2] (stream_error ''EBADF'' 0), GetMissing ''u1'', Status ''u3'']"

section \<open>Bits\<close>

lemma mask_and: "(w AND bitMask j = 0) = (\<not> bit w (j mod 8))" for w :: u8
  by (simp add: bitMask_def and_exp_eq_0_iff_not_bit)

lemma bit_bitMask: "bit (bitMask i) n = (n = i mod 8)"
  by (auto simp add: bitMask_def bit_simps)

lemma or_mask_and:
  "((w OR bitMask i) AND bitMask j \<noteq> 0) = (w AND bitMask j \<noteq> 0 \<or> i mod 8 = j mod 8)"
  for w :: u8
  by (auto simp add: mask_and bit_simps bit_bitMask)

lemma byteIndex_small:
  assumes "i < 2 ^ 34"
  shows "byteIndex i = int (i div 8)"
proof -
  from assms have "i div 8 < 2 ^ 31" by simp
  then show ?thesis
    unfolding byteIndex_def
    by (simp add: sint_uint signed_take_bit_int_eq_self unsigned_of_nat take_bit_nat_eq_self)
qed

lemma same_slot_small:
  assumes "i < 2 ^ 34" "j < 2 ^ 34"
  shows "same_slot i j = (i = j)"
proof
  assume "same_slot i j"
  then have "i div 8 = j div 8" "i mod 8 = j mod 8"
    using assms by (simp_all add: same_slot_def byteIndex_small)
  then show "i = j" by (metis div_mult_mod_eq)
qed (simp add: same_slot_def)

lemma same_slot_refl [simp]: "same_slot i i"
  by (simp add: same_slot_def)

section \<open>BitSet\<close>

lemma len_set [simp]: "len (BitSet_set b i) = len b"
  by (simp add: BitSet_set_def Let_def)

lemma length_bytes_set [simp]: "length (bytes (BitSet_set b i)) = length (bytes b)"
  by (simp add: BitSet_set_def Let_def)

lemma slot_ok_set [simp]: "slot_ok (BitSet_set b i) j = slot_ok b j"
  by (simp add: slot_ok_def)

lemma BitSet_wf_set [simp]: "BitSet_wf (BitSet_set b i) = BitSet_wf b"
  by (simp add: BitSet_wf_def)

lemma set_no_slot: "\<not> slot_ok b i \<Longrightarrow> BitSet_set b i = b"
  by (auto simp add: BitSet_set_def slot_ok_def Let_def)

lemma has_set:
  "BitSet_has (BitSet_set b i) j = (BitSet_has b j \<or> (slot_ok b i \<and> same_slot i j))"
  by (auto simp add: BitSet_has_def BitSet_set_def Let_def slot_ok_def same_slot_def
      or_mask_and nth_list_update)

lemma has_slot_ok: "BitSet_has b i \<Longrightarrow> slot_ok b i"
  by (simp add: BitSet_has_def slot_ok_def Let_def split: if_splits)

lemma has_same_slot: "same_slot i j \<Longrightarrow> BitSet_has b i = BitSet_has b j"
  by (simp add: BitSet_has_def same_slot_def Let_def mask_and)

lemma has_new [simp]: "\<not> BitSet_has (BitSet_new n) j"
  by (simp add: BitSet_has_def BitSet_new_def Let_def)

lemma len_new [simp]: "len (BitSet_new n) = n"
  by (simp add: BitSet_new_def)

lemma length_bytes_new [simp]: "length (bytes (BitSet_new n)) = ceil_div n 8"
  by (simp add: BitSet_new_def)

lemma BitSet_wf_new [simp]: "BitSet_wf (BitSet_new n)"
  by (simp add: BitSet_wf_def)

lemma toArray_new [simp]: "BitSet_toArray (BitSet_new n) = []"
  by (simp add: BitSet_toArray_def)

lemma foldl_set_len [simp]: "len (foldl BitSet_set b arr) = len b"
  by (induction arr arbitrary: b) simp_all

lemma foldl_set_length_bytes [simp]:
  "length (bytes (foldl BitSet_set b arr)) = length (bytes b)"
  by (induction arr arbitrary: b) simp_all

lemma has_foldl_set:
  "BitSet_has (foldl BitSet_set b arr) j =
     (BitSet_has b j \<or> (\<exists>i\<in>set arr. slot_ok b i \<and> same_slot i j))"
  by (induction arr arbitrary: b) (auto simp add: has_set)

lemma has_fromArray:
  "BitSet_has (BitSet_fromArray arr n) j =
     (\<exists>i\<in>set arr. slot_ok (BitSet_new n) i \<and> same_slot i j)"
  by (simp add: BitSet_fromArray_def has_foldl_set)

lemma len_fromArray [simp]: "len (BitSet_fromArray arr n) = n"
  by (simp add: BitSet_fromArray_def)

lemma BitSet_wf_fromArray [simp]: "BitSet_wf (BitSet_fromArray arr n)"
  by (simp add: BitSet_fromArray_def BitSet_wf_def)

lemma has_fromArray_toArray:
  assumes "BitSet_wf b" "j < len b"
  shows "BitSet_has (BitSet_fromArray (BitSet_toArray b) (len b)) j = BitSet_has b j"
proof -
  have same: "slot_ok (BitSet_new (len b)) i = slot_ok b i" for i
    using assms(1) by (simp add: slot_ok_def BitSet_wf_def)
  show ?thesis
  proof
    assume "BitSet_has (BitSet_fromArray (BitSet_toArray b) (len b)) j"
    then obtain i where "i \<in> set (BitSet_toArray b)" "same_slot i j"
      by (auto simp add: has_fromArray)
    then show "BitSet_has b j"
      by (auto simp add: BitSet_toArray_def has_same_slot)
  next
    assume h: "BitSet_has b j"
    then have "j \<in> set (BitSet_toArray b)"
      using assms(2) by (simp add: BitSet_toArray_def)
    moreover have "slot_ok b j" using h by (rule has_slot_ok)
    ultimately show "BitSet_has (BitSet_fromArray (BitSet_toArray b) (len b)) j"
      unfolding has_fromArray same using same_slot_refl by blast
  qed
qed

lemma toArray_roundtrip:
  assumes "BitSet_wf b"
  shows "BitSet_toArray (BitSet_fromArray (BitSet_toArray b) (len b)) = BitSet_toArray b"
proof -
  have "filter (BitSet_has (BitSet_fromArray (BitSet_toArray b) (len b))) [0..<len b]
        = filter (BitSet_has b) [0..<len b]"
    by (rule filter_cong) (simp_all add: has_fromArray_toArray [OF assms])
  then show ?thesis
    by (simp add: BitSet_toArray_def)
qed

lemma toArray_set_mono: "set (BitSet_toArray b) \<subseteq> set (BitSet_toArray (BitSet_set b i))"
  by (auto simp add: BitSet_toArray_def has_set)

section \<open>Lookups\<close>

lemma bitmapLength_pos [simp]: "0 < cs \<Longrightarrow> bitmapLength sz cs = Some (max 1 (ceil_div sz cs))"
  by (simp add: bitmapLength_def)

lemma bitmapLength_None [simp]: "0 < sz \<Longrightarrow> bitmapLength sz 0 = None"
  by (simp add: bitmapLength_def)

lemma getUpload_cached: "uploads st i = Some up \<Longrightarrow> getUpload st i = (Some up, st)"
  by (simp add: getUpload_def)

lemma getUpload_unknown:
  "uploads st i = None \<Longrightarrow> disk st (metaPath st i) = None \<Longrightarrow> getUpload st i = (None, st)"
  by (simp add: getUpload_def)




lemma getUpload_Some_cached:
  "getUpload st i = (Some up, st1) \<Longrightarrow> uploads st1 i = Some up"
  by (auto simp add: getUpload_def Let_def split: option.splits fcontent.splits)

lemma getUpload_None_same: "getUpload st i = (None, st1) \<Longrightarrow> st1 = st \<and> uploads st i = None"
  by (auto simp add: getUpload_def Let_def split: option.splits fcontent.splits)

lemma getUpload_other:
  "j \<noteq> i \<Longrightarrow> uploads (snd (getUpload st i)) j = uploads st j"
  by (simp add: getUpload_def Let_def split: option.splits fcontent.splits)

lemma metaPath_cong: "baseDir st' = baseDir st \<Longrightarrow> metaPath st' i = metaPath st i"
  by (simp add: metaPath_def)


section \<open>Writing a chunk\<close>

lemma beginWrite_Acquired:
  assumes "beginWrite st i offset = (Inr (Acquired up k), st2)"
  shows "\<exists>st1 ls. getUpload st i = (Some up, st1) \<and> locks st1 i = Some ls \<and> k \<notin> ls
           \<and> k = offset div chunkSize up \<and> \<not> BitSet_has (receivedBitset up) k
           \<and> st2 = st1\<lparr>locks := (locks st1)(i \<mapsto> insert k ls)\<rparr>"
  using assms
  by (auto simp add: beginWrite_def Let_def split: prod.splits option.splits if_splits)

lemma unlock_locks:
  "locks st i = Some ls \<Longrightarrow> locks (unlock st i k) i = Some (ls - {k})"
  by (simp add: unlock_def)

lemma settleWrite_locks:
  assumes "locks st i = Some ls"
  shows "locks (snd (settleWrite st i up k offset payload out)) i = Some (ls - {k})"
  using assms
  by (auto simp add: settleWrite_def onFinish_def scheduleFlush_def unlock_def
      split: prod.splits sum.splits)

lemma settleWrite_result:
  "(case fst (settleWrite st i up k offset payload out) of
      Inr r \<Rightarrow> \<not> alreadyReceived r
    | Inl e \<Rightarrow> e = transient_write_failure \<or> (\<exists>c. e = io_error c))"
  by (auto simp add: settleWrite_def split: prod.splits sum.splits)

lemma settleWrite_uploads:
  assumes "uploads st i = Some up"
  shows "\<exists>up'. uploads (snd (settleWrite st i up k offset payload out)) i = Some up'
           \<and> chunkSize up' = chunkSize up"
  using assms
  by (auto simp add: settleWrite_def onFinish_def scheduleFlush_def unlock_def
      split: prod.splits sum.splits option.splits)

lemma writeChunkAt_no_conflict:
  assumes "uploads st i = Some up" and "locks st i = Some ls"
    and "offset div chunkSize up \<notin> ls"
  shows "fst (writeChunkAt st i offset payload out) \<noteq> Inl chunk_write_in_progress"
proof (cases "BitSet_has (receivedBitset up) (offset div chunkSize up)")
  case True
  then show ?thesis
    using assms(1) by (simp add: writeChunkAt_def beginWrite_def getUpload_cached)
next
  case False
  let ?k = "offset div chunkSize up"
  let ?st2 = "st\<lparr>locks := (locks st)(i \<mapsto> insert ?k ls)\<rparr>"
  have "writeChunkAt st i offset payload out = settleWrite ?st2 i up ?k offset payload out"
    using assms False by (simp add: writeChunkAt_def beginWrite_def getUpload_cached Let_def)
  then show ?thesis
    using settleWrite_result [of ?st2 i up ?k offset payload out]
    by (auto split: sum.splits)
qed

section \<open>Evaluating the examples\<close>

lemmas example_defs = st150w_def st150_def st0_def args150_def env_ok_def

lemmas op_defs = createUpload_def writeFileAsync_def scheduleFlush_def metaPath_def dataPath_def
  basename_def writeChunkAt_def beginWrite_def settleWrite_def doWrite_def onFinish_def unlock_def
  getUpload_def bitmapLength_def

lemmas bit_defs = BitSet_new_def BitSet_has_def BitSet_set_def byteIndex_def bitMask_def ceil_div_def

lemma st150w_upload:
  "uploads st150w ''u1'' =
     Some \<lparr>uid = ''u1'', filename = ''movie.bin'', totalSize = 150, chunkSize = 64,
           createdAt = 1000, filePath = ''/srv/uploads/movie.bin.u1'', completed = False,
           receivedBitset = \<lparr>len = 3, bytes = [4]\<rparr>\<rparr>"
  by (simp add: example_defs op_defs bit_defs Let_def)

lemma st150_upload:
  "uploads st150 ''u1'' =
     Some \<lparr>uid = ''u1'', filename = ''movie.bin'', totalSize = 150, chunkSize = 64,
           createdAt = 1000, filePath = ''/srv/uploads/movie.bin.u1'', completed = False,
           receivedBitset = \<lparr>len = 3, bytes = [0]\<rparr>\<rparr>"
  by (simp add: example_defs op_defs bit_defs Let_def)

lemma st150_locks: "locks st150 ''u1'' = Some {}"
  by (simp add: example_defs op_defs Let_def)

section \<open>Snapshots\<close>

lemma metaPath_restart [simp]: "metaPath (restart st) i = metaPath st i"
  by (simp add: metaPath_def restart_def)

lemma getUpload_restart:
  assumes "disk st (metaPath st i) = Some (Json (metaOf up))" and "upload_wf up"
  shows "getUpload (restart st) i =
           (Some (up\<lparr>receivedBitset :=
                      BitSet_fromArray (BitSet_toArray (receivedBitset up)) (len (receivedBitset up))\<rparr>),
            (restart st)\<lparr>uploads := (uploads (restart st))(i \<mapsto>
                 up\<lparr>receivedBitset :=
                      BitSet_fromArray (BitSet_toArray (receivedBitset up)) (len (receivedBitset up))\<rparr>),
               locks := (locks (restart st))(i \<mapsto> {})\<rparr>)"
proof -
  have d: "disk (restart st) (metaPath st i) = Some (Json (metaOf up))"
    using assms(1) by (simp add: restart_def)
  have u: "uploads (restart st) i = None" and l: "locks (restart st) i = None"
    by (simp_all add: restart_def)
  have n: "max (Suc 0) (ceil_div (totalSize up) (chunkSize up)) = len (receivedBitset up)"
    and pos: "0 < chunkSize up"
    using assms(2) by (simp_all add: upload_wf_def)
  show ?thesis
    using n pos
    by (cases up) (simp add: getUpload_def [of "restart st"] d u l Let_def metaOf_def)
qed

lemma getStatus_cached:
  assumes "uploads st i = Some up"
  shows "getStatus st i =
     (Inr \<lparr>s_uploadId = i, s_filename = filename up, s_totalSize = totalSize up,
           s_chunkSize = chunkSize up, s_totalChunks = ceil_div (totalSize up) (chunkSize up),
           s_receivedChunks = BitSet_toArray (receivedBitset up),
           s_receivedCount = length (BitSet_toArray (receivedBitset up))\<rparr>, st)"
  using assms by (simp add: getStatus_def getReceivedChunksArray_def getUpload_cached Let_def)

lemma getStatus_after_getUpload:
  assumes "getUpload st i = (Some up, st1)"
  shows "getStatus st i =
     (Inr \<lparr>s_uploadId = i, s_filename = filename up, s_totalSize = totalSize up,
           s_chunkSize = chunkSize up, s_totalChunks = ceil_div (totalSize up) (chunkSize up),
           s_receivedChunks = BitSet_toArray (receivedBitset up),
           s_receivedCount = length (BitSet_toArray (receivedBitset up))\<rparr>, st1)"
  using assms getUpload_Some_cached [OF assms]
  by (simp add: getStatus_def getReceivedChunksArray_def getUpload_cached Let_def)

lemma getStatus_unknown:
  "uploads st i = None \<Longrightarrow> disk st (metaPath st i) = None
     \<Longrightarrow> getStatus st i = (Inl upload_not_found, st)"
  by (simp add: getStatus_def getUpload_unknown)

lemma metaPath_inj: "metaPath st i = metaPath st j \<Longrightarrow> i = j"
  by (simp add: metaPath_def)

lemma flushOne_fields [simp]:
  "uploads (flushOne w st j) = uploads st" "baseDir (flushOne w st j) = baseDir st"
  "locks (flushOne w st j) = locks st" "dirty (flushOne w st j) = dirty st"
  "debounceTimer (flushOne w st j) = debounceTimer st"
  by (simp_all add: flushOne_def split: option.splits)

lemma foldl_flushOne_fields [simp]:
  "uploads (foldl (flushOne w) st ids) = uploads st"
  "baseDir (foldl (flushOne w) st ids) = baseDir st"
  "locks (foldl (flushOne w) st ids) = locks st"
  "dirty (foldl (flushOne w) st ids) = dirty st"
  "debounceTimer (foldl (flushOne w) st ids) = debounceTimer st"
  by (induction ids arbitrary: st) simp_all

lemma metaPath_update [simp]:
  "metaPath (st\<lparr>dirty := a\<rparr>) i = metaPath st i"
  "metaPath (st\<lparr>debounceTimer := b\<rparr>) i = metaPath st i"
  "metaPath (st\<lparr>uploads := c\<rparr>) i = metaPath st i"
  "metaPath (st\<lparr>locks := d\<rparr>) i = metaPath st i"
  "metaPath (st\<lparr>disk := e\<rparr>) i = metaPath st i"
  by (simp_all add: metaPath_def)

lemma metaPath_flushOne [simp]: "metaPath (flushOne w st j) i = metaPath st i"
  by (simp add: metaPath_def)

lemma flushOne_writes:
  assumes "uploads st i = Some up" and "w i = write_ok"
  shows "disk (flushOne w st i) (metaPath st i) = Some (Json (metaOf up))"
  using assms by (simp add: flushOne_def writeFileAsync_def)

lemma flushOne_keeps:
  assumes "uploads st i = Some up" and "w i = write_ok"
    and "disk st (metaPath st i) = Some (Json (metaOf up))"
  shows "disk (flushOne w st j) (metaPath st i) = Some (Json (metaOf up))"
proof (cases "j = i")
  case True
  then show ?thesis using assms by (simp add: flushOne_writes)
next
  case False
  then have "metaPath st j \<noteq> metaPath st i" using metaPath_inj by blast
  then show ?thesis
    using assms(3)
    by (simp add: flushOne_def writeFileAsync_def split: option.splits write_outcome.splits)
qed

lemma foldl_flushOne_keeps:
  assumes "uploads st i = Some up" and "w i = write_ok"
    and "disk st (metaPath st i) = Some (Json (metaOf up))"
  shows "disk (foldl (flushOne w) st ids) (metaPath st i) = Some (Json (metaOf up))"
  using assms
proof (induction ids arbitrary: st)
  case Nil
  then show ?case by simp
next
  case (Cons j ids)
  have "disk (foldl (flushOne w) (flushOne w st j) ids) (metaPath (flushOne w st j) i)
          = Some (Json (metaOf up))"
    using Cons.prems by (intro Cons.IH) (simp_all add: flushOne_keeps)
  then show ?case by simp
qed

lemma foldl_flushOne_writes:
  assumes "i \<in> set ids" and "uploads st i = Some up" and "w i = write_ok"
  shows "disk (foldl (flushOne w) st ids) (metaPath st i) = Some (Json (metaOf up))"
  using assms
proof (induction ids arbitrary: st)
  case Nil
  then show ?case by simp
next
  case (Cons j ids)
  show ?case
  proof (cases "j = i")
    case True
    have "disk (foldl (flushOne w) (flushOne w st i) ids) (metaPath (flushOne w st i) i)
            = Some (Json (metaOf up))"
      using Cons.prems by (intro foldl_flushOne_keeps) (simp_all add: flushOne_writes)
    then show ?thesis using True by simp
  next
    case False
    then have "i \<in> set ids" using Cons.prems by simp
    then have "disk (foldl (flushOne w) (flushOne w st j) ids) (metaPath (flushOne w st j) i)
            = Some (Json (metaOf up))"
      using Cons.prems by (intro Cons.IH) simp_all
    then show ?thesis by simp
  qed
qed

lemma flushDirty_writes:
  assumes "i \<in> set (dirty st)" and "uploads st i = Some up" and "w i = write_ok"
  shows "disk (flushDirty st w) (metaPath st i) = Some (Json (metaOf up))"
proof -
  let ?s = "st\<lparr>dirty := [], debounceTimer := False\<rparr>"
  have "disk (foldl (flushOne w) ?s (dirty st)) (metaPath ?s i) = Some (Json (metaOf up))"
    using assms by (intro foldl_flushOne_writes) simp_all
  then show ?thesis by (simp add: flushDirty_def)
qed

lemma flushAllMetadata_writes:
  assumes "i \<in> set (dirty st)" and "uploads st i = Some up" and "w i = write_ok"
  shows "disk (flushAllMetadata st w) (metaPath st i) = Some (Json (metaOf up))"
proof (cases "debounceTimer st")
  case True
  let ?s = "st\<lparr>debounceTimer := False\<rparr>"
  have "disk (flushDirty ?s w) (metaPath ?s i) = Some (Json (metaOf up))"
    using assms by (intro flushDirty_writes) simp_all
  then show ?thesis using True by (simp add: flushAllMetadata_def)
next
  case False
  then show ?thesis using assms by (simp add: flushAllMetadata_def flushDirty_writes)
qed

lemma st150w_dirty: "dirty st150w = [''u1'']"
  by (simp add: example_defs op_defs bit_defs Let_def)

lemma st150w_baseDir: "baseDir st150w = ''/srv/uploads''"
  by (simp add: example_defs op_defs bit_defs Let_def)


lemma st150w_disk_u2: "disk st150w ''/srv/uploads/u2.json'' = None"
  by (simp add: example_defs op_defs bit_defs Let_def)

section \<open>Chunk counts\<close>

lemma ceil_div_pos: "0 < a \<Longrightarrow> 0 < b \<Longrightarrow> 1 \<le> ceil_div a b"
  by (simp add: ceil_div_def Suc_leI div_greater_zero_iff)

lemma createUpload_Inr:
  assumes "createUpload st a env = (Inr i, st')"
    and "0 < (case a_chunkSize a of None \<Rightarrow> 64 * 1024 * 1024 | Some c \<Rightarrow> c)"
  shows "i = e_uuid env
       \<and> uploads st' = (uploads st)(i \<mapsto>
           \<lparr>uid = i, filename = basename (a_filename a), totalSize = a_totalSize a,
            chunkSize = (case a_chunkSize a of None \<Rightarrow> 64 * 1024 * 1024 | Some c \<Rightarrow> c),
            createdAt = e_now env, filePath = dataPath st i (basename (a_filename a)),
            completed = False,
            receivedBitset = BitSet_new (max 1 (ceil_div (a_totalSize a)
               (case a_chunkSize a of None \<Rightarrow> 64 * 1024 * 1024 | Some c \<Rightarrow> c)))\<rparr>)
       \<and> locks st' = (locks st)(i \<mapsto> {})
       \<and> i \<in> set (dirty st') \<and> debounceTimer st' \<and> baseDir st' = baseDir st"
  using assms
  by (auto simp add: createUpload_def Let_def writeFileAsync_def scheduleFlush_def
      split: write_outcome.splits io_outcome.splits)

lemma chunks_agree_cached:
  assumes "uploads st i = Some up"
    and "len (receivedBitset up) = ceil_div (totalSize up) (chunkSize up)"
  shows "chunks_agree st i (ceil_div (totalSize up) (chunkSize up))"
  using assms
  by (simp add: chunks_agree_def getUpload_cached getStatus_cached getMissingChunks_def)

lemma chunks_agree_loaded:
  assumes "getUpload st i = (Some up, st1)"
    and "len (receivedBitset up) = ceil_div (totalSize up) (chunkSize up)"
  shows "chunks_agree st i (ceil_div (totalSize up) (chunkSize up))"
  using assms
  by (simp add: chunks_agree_def getStatus_after_getUpload getMissingChunks_def)

lemma getUpload_snapshot:
  assumes "uploads st i = None" and "disk st (metaPath st i) = Some (Json m)"
    and "0 < m_chunkSize m"
  shows "\<exists>st1. getUpload st i =
     (Some \<lparr>uid = m_id m, filename = m_filename m, totalSize = m_totalSize m,
            chunkSize = m_chunkSize m, createdAt = m_createdAt m, filePath = m_filePath m,
            completed = m_completed m,
            receivedBitset = BitSet_fromArray (m_receivedChunks m)
               (max 1 (ceil_div (m_totalSize m) (m_chunkSize m)))\<rparr>, st1)"
  using assms by (simp add: getUpload_def Let_def)

lemma st_empty_upload:
  "uploads st_empty ''u1'' =
     Some \<lparr>uid = ''u1'', filename = ''empty.bin'', totalSize = 0, chunkSize = 64,
           createdAt = 1000, filePath = ''/srv/uploads/empty.bin.u1'', completed = False,
           receivedBitset = \<lparr>len = 1, bytes = [0]\<rparr>\<rparr>"
  by (simp add: st_empty_def args0_def example_defs op_defs bit_defs Let_def)

lemma st150_create: "createUpload st0 args150 env_ok = (Inr ''u1'', st150)"
  by (simp add: example_defs createUpload_def writeFileAsync_def Let_def)

lemma st150f_upload: "uploads st150f ''u1'' = None"
  by (simp add: st150f_def restart_def)

lemma st150f_disk:
  "disk st150f (metaPath st150f ''u1'') =
     Some (Json \<lparr>m_id = ''u1'', m_filename = ''movie.bin'', m_totalSize = 150, m_chunkSize = 64,
                 m_createdAt = 1000, m_receivedChunks = [2],
                 m_filePath = ''/srv/uploads/movie.bin.u1'', m_completed = False\<rparr>)"
  by (simp add: st150f_def restart_def metaPath_def flushAllMetadata_def flushDirty_def
        st150w_dirty st150w_baseDir flushOne_def st150w_upload writeFileAsync_def metaOf_def
        BitSet_toArray_def bit_defs upt_rec)

section \<open>Missing chunks and completion\<close>

lemma mem_toArray: "k \<in> set (BitSet_toArray b) = (k < len b \<and> BitSet_has b k)"
  by (auto simp add: BitSet_toArray_def)

lemma getMissingChunks_cached:
  "uploads st i = Some up \<Longrightarrow>
     getMissingChunks st i =
       (filter (\<lambda>k. \<not> BitSet_has (receivedBitset up) k)
          [0..<ceil_div (totalSize up) (chunkSize up)], st)"
  by (simp add: getMissingChunks_def getUpload_cached)

lemma missing_is_complement:
  assumes "upload_wf up"
  shows "filter (\<lambda>k. \<not> BitSet_has (receivedBitset up) k) [0..<ceil_div (totalSize up) (chunkSize up)]
       = filter (\<lambda>k. k \<notin> set (BitSet_toArray (receivedBitset up)))
           [0..<ceil_div (totalSize up) (chunkSize up)]"
proof (rule filter_cong)
  fix k
  assume "k \<in> set [0..<ceil_div (totalSize up) (chunkSize up)]"
  then have "k < len (receivedBitset up)"
    using assms by (simp add: upload_wf_def)
  then show "(\<not> BitSet_has (receivedBitset up) k) = (k \<notin> set (BitSet_toArray (receivedBitset up)))"
    by (simp add: mem_toArray)
qed simp

lemma markCompleted_cached:
  "uploads st i = Some up \<Longrightarrow>
     markCompleted st i =
       (Inr (), scheduleFlush (st\<lparr>uploads := (uploads st)(i \<mapsto> up\<lparr>completed := True\<rparr>)\<rparr>) i)"
  by (simp add: markCompleted_def getUpload_cached)

lemma st640_upload:
  "uploads st640 ''u1'' =
     Some \<lparr>uid = ''u1'', filename = ''data.bin'', totalSize = 640, chunkSize = 64,
           createdAt = 1000, filePath = ''/srv/uploads/data.bin.u1'', completed = False,
           receivedBitset = \<lparr>len = 10, bytes = [39, 0]\<rparr>\<rparr>"
  by (simp add: st640_def run_def args640_def example_defs op_defs bit_defs Let_def numeral_2_eq_2)

lemma st150c_upload:
  "uploads st150c ''u1'' =
     Some \<lparr>uid = ''u1'', filename = ''movie.bin'', totalSize = 150, chunkSize = 64,
           createdAt = 1000, filePath = ''/srv/uploads/movie.bin.u1'', completed = False,
           receivedBitset = \<lparr>len = 3, bytes = [7]\<rparr>\<rparr>"
  by (simp add: st150c_def run_def example_defs op_defs bit_defs Let_def)

section \<open>Failed creation\<close>

lemma chunkSize_pos:
  "a_chunkSize a \<noteq> Some 0 \<Longrightarrow> 0 < (case a_chunkSize a of None \<Rightarrow> 64 * 1024 * 1024 | Some c \<Rightarrow> c)"
  by (cases "a_chunkSize a") simp_all

lemma createUpload_range_error:
  "a_chunkSize a = Some 0 \<Longrightarrow> 0 < a_totalSize a \<Longrightarrow> createUpload st a env = (Inl range_error, st)"
  by (simp add: createUpload_def Let_def)

lemma createUpload_cs0_example:
  "createUpload st0 args_cs0 env_nospc = (Inl range_error, st0)
   \<and> getUpload st0 ''u1'' = (None, st0)"
  by (simp add: createUpload_range_error args_cs0_def getUpload_unknown st0_def)





section \<open>Aborting\<close>


lemma unlinkAsync_other: "q \<noteq> p \<Longrightarrow> snd (unlinkAsync d p out) q = d q"
  by (auto simp add: unlinkAsync_def split: io_outcome.splits)

lemma unlinkAsync_None: "d q = None \<Longrightarrow> snd (unlinkAsync d p out) q = None"
  by (auto simp add: unlinkAsync_def split: io_outcome.splits)








section \<open>What one operation does to a cached descriptor\<close>




lemma getUpload_keeps:
  "uploads st i = Some up \<Longrightarrow> uploads (snd (getUpload st j)) i = Some up"
  by (cases "j = i") (simp_all add: getUpload_cached getUpload_other)

lemma createUpload_other:
  "e_uuid env \<noteq> i \<Longrightarrow> uploads (snd (createUpload st a env)) i = uploads st i"
  by (auto simp add: createUpload_def Let_def writeFileAsync_def scheduleFlush_def
      split: write_outcome.splits io_outcome.splits option.splits)

lemma unlock_uploads [simp]: "uploads (unlock st j k) = uploads st"
  by (simp add: unlock_def split: option.splits)

lemma scheduleFlush_uploads [simp]: "uploads (scheduleFlush st j) = uploads st"
  by (simp add: scheduleFlush_def)

lemma settleWrite_uploads_cases:
  "uploads (snd (settleWrite st j upj k offset payload out)) = uploads st
   \<or> uploads (snd (settleWrite st j upj k offset payload out)) =
       (uploads st)(j \<mapsto> upj\<lparr>receivedBitset := BitSet_set (receivedBitset upj) k\<rparr>)"
  by (auto simp add: settleWrite_def onFinish_def split: prod.splits sum.splits)

lemma beginWrite_cases:
  "(\<exists>e. beginWrite st j offset = (Inl e, snd (getUpload st j)))
   \<or> (\<exists>r. beginWrite st j offset = (Inr (Early r), snd (getUpload st j)))
   \<or> (\<exists>upj k ls. fst (getUpload st j) = Some upj
        \<and> beginWrite st j offset =
            (Inr (Acquired upj k),
             (snd (getUpload st j))\<lparr>locks := (locks (snd (getUpload st j)))(j \<mapsto> ls)\<rparr>))"
  by (auto simp add: beginWrite_def Let_def split: prod.splits option.splits)

lemma writeChunkAt_keeps:
  assumes "uploads st i = Some up"
  shows "uploads (snd (writeChunkAt st j offset payload out)) i = Some up
       \<or> (\<exists>k. uploads (snd (writeChunkAt st j offset payload out)) i =
              Some (up\<lparr>receivedBitset := BitSet_set (receivedBitset up) k\<rparr>))"
proof -
  let ?st1 = "snd (getUpload st j)"
  have u1: "uploads ?st1 i = Some up" using assms by (rule getUpload_keeps)
  consider (err) e where "beginWrite st j offset = (Inl e, ?st1)"
    | (early) r where "beginWrite st j offset = (Inr (Early r), ?st1)"
    | (acq) upj k ls where "fst (getUpload st j) = Some upj"
        "beginWrite st j offset =
            (Inr (Acquired upj k), ?st1\<lparr>locks := (locks ?st1)(j \<mapsto> ls)\<rparr>)"
    using beginWrite_cases [of st j offset] by blast
  then show ?thesis
  proof cases
    case err
    then show ?thesis using u1 by (simp add: writeChunkAt_def)
  next
    case early
    then show ?thesis using u1 by (simp add: writeChunkAt_def)
  next
    case acq
    let ?st2 = "?st1\<lparr>locks := (locks ?st1)(j \<mapsto> ls)\<rparr>"
    have w: "writeChunkAt st j offset payload out = settleWrite ?st2 j upj k offset payload out"
      using acq(2) by (simp add: writeChunkAt_def)
    have same: "j = i \<Longrightarrow> upj = up"
      using acq(1) assms by (simp add: getUpload_cached)
    from settleWrite_uploads_cases [of ?st2 j upj k offset payload out]
    show ?thesis
      unfolding w using u1 same by (cases "j = i") auto
  qed
qed

lemma markCompleted_keeps:
  assumes "uploads st i = Some up"
  shows "uploads (snd (markCompleted st j)) i = Some up
       \<or> uploads (snd (markCompleted st j)) i = Some (up\<lparr>completed := True\<rparr>)"
proof (cases "j = i")
  case True
  then show ?thesis using assms by (simp add: markCompleted_cached)
next
  case False
  then show ?thesis
    using assms getUpload_other [of i j st]
    by (auto simp add: markCompleted_def split: prod.splits option.splits)
qed

lemma abortUpload_other:
  assumes "j \<noteq> i"
  shows "uploads (snd (abortUpload st j out1 out2)) i = uploads st i"
  using assms getUpload_other [of i j st]
  by (auto simp add: abortUpload_def Let_def split: prod.splits option.splits)

lemma flushDirty_uploads [simp]: "uploads (flushDirty st w) = uploads st"
  by (simp add: flushDirty_def)

lemma flushAllMetadata_uploads [simp]: "uploads (flushAllMetadata st w) = uploads st"
  by (simp add: flushAllMetadata_def)

lemma getReceivedChunksArray_snd [simp]:
  "snd (getReceivedChunksArray st j) = snd (getUpload st j)"
  by (simp add: getReceivedChunksArray_def split: prod.splits option.splits)

lemma getMissingChunks_snd [simp]: "snd (getMissingChunks st j) = snd (getUpload st j)"
  by (simp add: getMissingChunks_def split: prod.splits option.splits)

lemma getUpload_twice [simp]: "snd (getUpload (snd (getUpload st j)) j) = snd (getUpload st j)"
proof (cases "getUpload st j")
  case (Pair r st1)
  show ?thesis
  proof (cases r)
    case None
    then show ?thesis using Pair getUpload_None_same [of st j st1] by simp
  next
    case (Some up)
    then show ?thesis
      using Pair getUpload_Some_cached [of st j up st1] by (simp add: getUpload_cached)
  qed
qed

lemma getStatus_snd [simp]: "snd (getStatus st j) = snd (getUpload st j)"
proof (cases "getUpload st j")
  case (Pair r st1)
  show ?thesis
  proof (cases r)
    case None
    then show ?thesis using Pair by (simp add: getStatus_def)
  next
    case (Some up)
    then show ?thesis
      using Pair getStatus_after_getUpload [of st j up st1] by simp
  qed
qed

lemma completeUpload_keeps:
  assumes "uploads st i = Some up"
  shows "uploads (snd (completeUpload st j)) i = Some up
       \<or> uploads (snd (completeUpload st j)) i = Some (up\<lparr>completed := True\<rparr>)"
proof -
  let ?st1 = "snd (getUpload st j)"
  have u1: "uploads ?st1 i = Some up" using assms by (rule getUpload_keeps)
  have "snd (completeUpload st j) = ?st1 \<or> snd (completeUpload st j) = snd (markCompleted ?st1 j)"
    by (auto simp add: completeUpload_def Let_def split: prod.splits option.splits
        dest: getUpload_None_same)
       (metis getMissingChunks_snd getUpload_twice snd_conv)+
  then show ?thesis
    using u1 markCompleted_keeps [OF u1, of j] by auto
qed

lemma step_keeps:
  assumes "uploads st i = Some up" and "keeps i op"
  shows "\<exists>up'. uploads (step st op) i = Some up'
           \<and> len (receivedBitset up') = len (receivedBitset up)
           \<and> (\<forall>k. BitSet_has (receivedBitset up) k \<longrightarrow> BitSet_has (receivedBitset up') k)"
proof (cases op)
  case (Create a env)
  then show ?thesis using assms by (simp add: createUpload_other)
next
  case (WriteChunk j offset payload out)
  then show ?thesis
    using writeChunkAt_keeps [OF assms(1), of j offset payload out]
    by (auto simp add: has_set)
next
  case (MarkCompleted j)
  then show ?thesis using markCompleted_keeps [OF assms(1), of j] by auto
next
  case (Abort j out1 out2)
  then show ?thesis using assms by (simp add: abortUpload_other)
next
  case (Complete j)
  then show ?thesis using completeUpload_keeps [OF assms(1), of j] by auto
qed (use assms in \<open>simp_all add: getUpload_keeps\<close>)

section \<open>Reachable states\<close>

text \<open>
  \<open>state_ok\<close> holds of the empty manager and is kept by every operation, whatever the
  environment decides, as long as no upload is created with a chunk size of zero. In such
  a state every cached descriptor is well-formed, every snapshot on disk is the \<open>meta\<close>
  object of a well-formed descriptor, and the pending sets and the dirty set only mention
  cached descriptors: the assumptions made below hold throughout a run.
\<close>

lemma snapshot_ok_pos: "snapshot_ok m \<Longrightarrow> 0 < m_chunkSize m"
  by (auto simp add: snapshot_ok_def metaOf_def upload_wf_def)

lemma snapshot_ok_metaOf: "upload_wf up \<Longrightarrow> snapshot_ok (metaOf up)"
  by (auto simp add: snapshot_ok_def)

lemma snapshot_ok_initial:
  assumes "0 < cs"
  shows "snapshot_ok \<lparr>m_id = i, m_filename = f, m_totalSize = sz, m_chunkSize = cs,
            m_createdAt = t, m_receivedChunks = [], m_filePath = p, m_completed = False\<rparr>"
proof -
  let ?up = "\<lparr>uid = i, filename = f, totalSize = sz, chunkSize = cs, createdAt = t,
             filePath = p, completed = False,
             receivedBitset = BitSet_new (max 1 (ceil_div sz cs))\<rparr>"
  have "upload_wf ?up" using assms by (simp add: upload_wf_def)
  moreover have "metaOf ?up = \<lparr>m_id = i, m_filename = f, m_totalSize = sz, m_chunkSize = cs,
            m_createdAt = t, m_receivedChunks = [], m_filePath = p, m_completed = False\<rparr>"
    by (simp add: metaOf_def)
  ultimately show ?thesis unfolding snapshot_ok_def by metis
qed

lemma state_ok_snapshot:
  "state_ok st \<Longrightarrow> disk st p = Some (Json m) \<Longrightarrow> \<exists>up. upload_wf up \<and> m = metaOf up"
  by (auto simp add: state_ok_def snapshot_ok_def)

lemma state_ok_registry: "state_ok st \<Longrightarrow> registry_inv st"
  by (simp add: state_ok_def)

lemma getUpload_ok:
  assumes "state_ok st"
  shows "state_ok (snd (getUpload st i))"
proof (cases "uploads st i")
  case (Some up)
  then show ?thesis using assms by (simp add: getUpload_cached)
next
  case None
  show ?thesis
  proof (cases "disk st (metaPath st i)")
    case n: None
    then show ?thesis using None assms by (simp add: getUpload_unknown)
  next
    case (Some c)
    show ?thesis
    proof (cases c)
      case (Bytes bs)
      then show ?thesis using None Some assms by (simp add: getUpload_def)
    next
      case (Json m)
      then have pos: "0 < m_chunkSize m"
        using Some assms by (auto simp add: state_ok_def snapshot_ok_pos)
      have l: "locks st i = None"
        using None assms by (auto simp add: state_ok_def registry_inv_def)
      show ?thesis
        using None Some Json assms pos l
        by (auto simp add: getUpload_def Let_def state_ok_def registry_inv_def upload_wf_def)
    qed
  qed
qed

lemma createUpload_ok:
  assumes "state_ok st" and "a_chunkSize a \<noteq> Some 0"
  shows "state_ok (snd (createUpload st a env))"
proof -
  have pos: "0 < (case a_chunkSize a of None \<Rightarrow> 64 * 1024 * 1024 | Some c \<Rightarrow> c)"
    using assms(2) by (rule chunkSize_pos)
  show ?thesis
    using assms(1) pos
    by (auto simp add: createUpload_def Let_def writeFileAsync_def scheduleFlush_def
        state_ok_def registry_inv_def upload_wf_def snapshot_ok_initial
        split: write_outcome.splits io_outcome.splits option.splits if_splits)
qed


lemma state_ok_uploadD: "state_ok st \<Longrightarrow> uploads st i = Some up \<Longrightarrow> upload_wf up"
  by (auto simp add: state_ok_def)

lemma state_ok_locksD: "state_ok st \<Longrightarrow> uploads st i = Some up \<Longrightarrow> \<exists>ls. locks st i = Some ls"
  by (auto simp add: state_ok_def registry_inv_def)

lemma state_ok_lock_update:
  assumes "state_ok st" and "uploads st i = Some up"
  shows "state_ok (st\<lparr>locks := (locks st)(i \<mapsto> ls)\<rparr>)"
  using assms by (auto simp add: state_ok_def registry_inv_def)

lemma state_ok_unlock: "state_ok st \<Longrightarrow> state_ok (unlock st i k)"
  by (auto simp add: unlock_def state_ok_def registry_inv_def split: option.splits)

lemma state_ok_scheduleFlush:
  "state_ok st \<Longrightarrow> uploads st i = Some up \<Longrightarrow> state_ok (scheduleFlush st i)"
  by (auto simp add: scheduleFlush_def state_ok_def registry_inv_def)

lemma state_ok_upload_update:
  assumes "state_ok st" and "uploads st i = Some up" and "upload_wf up'"
  shows "state_ok (st\<lparr>uploads := (uploads st)(i \<mapsto> up')\<rparr>)"
  using assms by (auto simp add: state_ok_def registry_inv_def)

lemma doWrite_Json:
  assumes "snd (doWrite d p offset payload out) q = Some (Json m)"
  shows "d q = Some (Json m)"
  using assms
  by (auto simp add: doWrite_def split: option.splits stream_outcome.splits if_splits)

lemma state_ok_doWrite:
  assumes "state_ok st"
  shows "state_ok (st\<lparr>disk := snd (doWrite (disk st) p offset payload out)\<rparr>)"
  using assms
  by (auto simp add: state_ok_def registry_inv_def dest!: doWrite_Json)

lemma upload_wf_set:
  "upload_wf up \<Longrightarrow> upload_wf (up\<lparr>receivedBitset := BitSet_set (receivedBitset up) k\<rparr>)"
  by (simp add: upload_wf_def)

lemma upload_wf_completed: "upload_wf up \<Longrightarrow> upload_wf (up\<lparr>completed := b\<rparr>)"
  by (simp add: upload_wf_def)

lemma settleWrite_ok:
  assumes "state_ok st" and "uploads st i = Some up"
  shows "state_ok (snd (settleWrite st i up k offset payload out))"
proof -
  let ?d = "snd (doWrite (disk st) (filePath up) offset payload out)"
  let ?s = "st\<lparr>disk := ?d\<rparr>"
  have s: "state_ok ?s" using assms(1) by (rule state_ok_doWrite)
  have u: "uploads ?s i = Some up" using assms(2) by simp
  have wf: "upload_wf (up\<lparr>receivedBitset := BitSet_set (receivedBitset up) k\<rparr>)"
    using state_ok_uploadD [OF assms] by (rule upload_wf_set)
  have fin: "state_ok (onFinish ?s i up k)"
    unfolding onFinish_def
    by (intro state_ok_unlock state_ok_scheduleFlush [where up = "up\<lparr>receivedBitset := BitSet_set (receivedBitset up) k\<rparr>"]
        state_ok_upload_update [OF s u wf]) simp
  show ?thesis
    using s fin
    by (cases "doWrite (disk st) (filePath up) offset payload out")
       (auto simp add: settleWrite_def state_ok_unlock split: sum.splits)
qed

lemma writeChunkAt_ok:
  assumes "state_ok st"
  shows "state_ok (snd (writeChunkAt st i offset payload out))"
proof -
  let ?st1 = "snd (getUpload st i)"
  have s1: "state_ok ?st1" using assms by (rule getUpload_ok)
  consider (err) e where "beginWrite st i offset = (Inl e, ?st1)"
    | (early) r where "beginWrite st i offset = (Inr (Early r), ?st1)"
    | (acq) up k ls where "fst (getUpload st i) = Some up"
        "beginWrite st i offset =
            (Inr (Acquired up k), ?st1\<lparr>locks := (locks ?st1)(i \<mapsto> ls)\<rparr>)"
    using beginWrite_cases [of st i offset] by blast
  then show ?thesis
  proof cases
    case err
    then show ?thesis using s1 by (simp add: writeChunkAt_def)
  next
    case early
    then show ?thesis using s1 by (simp add: writeChunkAt_def)
  next
    case acq
    have u1: "uploads ?st1 i = Some up"
      using acq(1) getUpload_Some_cached [of st i up ?st1] by (cases "getUpload st i") simp
    let ?st2 = "?st1\<lparr>locks := (locks ?st1)(i \<mapsto> ls)\<rparr>"
    have "state_ok ?st2" using s1 u1 by (rule state_ok_lock_update)
    moreover have "uploads ?st2 i = Some up" using u1 by simp
    ultimately have "state_ok (snd (settleWrite ?st2 i up k offset payload out))"
      by (rule settleWrite_ok)
    then show ?thesis using acq(2) by (simp add: writeChunkAt_def)
  qed
qed

lemma markCompleted_ok:
  assumes "state_ok st"
  shows "state_ok (snd (markCompleted st i))"
proof (cases "getUpload st i")
  case (Pair r st1)
  have s1: "state_ok st1" using getUpload_ok [OF assms, of i] Pair by simp
  show ?thesis
  proof (cases r)
    case None
    then show ?thesis using Pair s1 by (simp add: markCompleted_def)
  next
    case (Some up)
    then have u1: "uploads st1 i = Some up"
      using Pair getUpload_Some_cached [of st i up st1] by simp
    have "state_ok (scheduleFlush (st1\<lparr>uploads := (uploads st1)(i \<mapsto> up\<lparr>completed := True\<rparr>)\<rparr>) i)"
      by (intro state_ok_scheduleFlush [where up = "up\<lparr>completed := True\<rparr>"]
          state_ok_upload_update [OF s1 u1] upload_wf_completed state_ok_uploadD [OF s1 u1]) simp
    then show ?thesis using Pair Some by (simp add: markCompleted_def)
  qed
qed

lemma unlinkAsync_Json:
  "snd (unlinkAsync d p out) q = Some (Json m) \<Longrightarrow> d q = Some (Json m)"
  by (auto simp add: unlinkAsync_def split: io_outcome.splits if_splits)

lemma abortUpload_ok:
  assumes "state_ok st"
  shows "state_ok (snd (abortUpload st i out1 out2))"
proof (cases "getUpload st i")
  case (Pair r st1)
  have s1: "state_ok st1" using getUpload_ok [OF assms, of i] Pair by simp
  show ?thesis
  proof (cases r)
    case None
    then show ?thesis using Pair s1 by (simp add: abortUpload_def)
  next
    case (Some up)
    have "state_ok (st1\<lparr>disk := snd (unlinkAsync (snd (unlinkAsync (disk st1) (filePath up) out1))
                               (metaPath st1 i) out2),
               uploads := (uploads st1)(i := None),
               locks := (locks st1)(i := None),
               dirty := removeAll i (dirty st1)\<rparr>)"
      using s1 by (auto simp add: state_ok_def registry_inv_def dest!: unlinkAsync_Json)
    then show ?thesis using Pair Some by (simp add: abortUpload_def Let_def)
  qed
qed

lemma flushOne_ok: "state_ok st \<Longrightarrow> state_ok (flushOne w st i)"
  by (auto simp add: flushOne_def writeFileAsync_def state_ok_def registry_inv_def
      snapshot_ok_metaOf split: option.splits write_outcome.splits if_splits)

lemma foldl_flushOne_ok: "state_ok st \<Longrightarrow> state_ok (foldl (flushOne w) st ids)"
  by (induction ids arbitrary: st) (simp_all add: flushOne_ok)

lemma flushDirty_ok:
  assumes "state_ok st"
  shows "state_ok (flushDirty st w)"
proof -
  have "state_ok (st\<lparr>dirty := [], debounceTimer := False\<rparr>)"
    using assms by (auto simp add: state_ok_def registry_inv_def)
  then show ?thesis by (simp add: flushDirty_def foldl_flushOne_ok)
qed

lemma flushAllMetadata_ok:
  assumes "state_ok st"
  shows "state_ok (flushAllMetadata st w)"
proof -
  have "state_ok (st\<lparr>debounceTimer := False\<rparr>)"
    using assms by (auto simp add: state_ok_def registry_inv_def)
  then show ?thesis using assms by (simp add: flushAllMetadata_def flushDirty_ok)
qed

lemma completeUpload_ok:
  assumes "state_ok st"
  shows "state_ok (snd (completeUpload st i))"
proof -
  let ?st1 = "snd (getUpload st i)"
  have "snd (completeUpload st i) = ?st1 \<or> snd (completeUpload st i) = snd (markCompleted ?st1 i)"
    by (auto simp add: completeUpload_def Let_def split: prod.splits option.splits
        dest: getUpload_None_same)
       (metis getMissingChunks_snd getUpload_twice snd_conv)+
  then show ?thesis
    using getUpload_ok [OF assms, of i] markCompleted_ok [of ?st1 i] by auto
qed

lemma step_ok:
  assumes "state_ok st" and "op_ok op"
  shows "state_ok (step st op)"
  using assms
  by (cases op)
     (simp_all add: getUpload_ok createUpload_ok writeChunkAt_ok markCompleted_ok abortUpload_ok
        flushDirty_ok flushAllMetadata_ok completeUpload_ok)

lemma st0_ok: "state_ok st0"
  by (simp add: state_ok_def registry_inv_def st0_def)

lemma run_ok:
  assumes "state_ok st" and "\<forall>op\<in>set ops. op_ok op"
  shows "state_ok (run st ops)"
  using assms by (induction ops arbitrary: st) (simp_all add: run_def step_ok)

lemma reachable_ok: "\<forall>op\<in>set ops. op_ok op \<Longrightarrow> state_ok (run st0 ops)"
  by (rule run_ok [OF st0_ok])

section \<open>Idempotent re-delivery\<close>

text \<open>
  Claim C1. For an upload in the registry and an offset whose chunk index is already in
  its bitmap, \<open>writeChunkAt\<close> returns \<open>alreadyReceived = true\<close> with \<open>written = 0\<close> and
  leaves the whole state as it was: the destination file, the bitmap, the pending set and
  the dirty set. The payload and the behaviour of the stream play no part.
\<close>

theorem writeChunkAt_already_received:
  assumes "uploads st i = Some up"
    and "BitSet_has (receivedBitset up) (offset div chunkSize up)"
  shows "writeChunkAt st i offset payload out =
           (Inr \<lparr>alreadyReceived = True, written = 0\<rparr>, st)"
  using assms by (simp add: writeChunkAt_def beginWrite_def getUpload_cached)

theorem writeChunkAt_already_received_witness:
  "writeChunkAt st150w ''u1'' 130 [1, 2, 3] finish =
     (Inr \<lparr>alreadyReceived = True, written = 0\<rparr>, st150w)"
proof -
  have "BitSet_has \<lparr>len = 3, bytes = [4]\<rparr> (130 div 64)"
    by (simp add: bit_defs)
  then show ?thesis
    using writeChunkAt_already_received [OF st150w_upload, of 130 "[1, 2, 3]" finish]
    by simp
qed

section \<open>Recovery after a restart\<close>

text \<open>
  Claim C2. Take a snapshot file as the program persists it: the \<open>meta\<close> object of a
  descriptor whose bitmap has the length that \<open>createUpload\<close> and \<open>getUpload\<close> give it.
  After the cache is cleared, looking the identifier up rebuilds the descriptor from that
  file alone, field by field, with a bitmap whose received indices are exactly the
  persisted list, and the status reports exactly that list and its length. An identifier
  with neither a cached descriptor nor a snapshot file yields \<open>upload_not_found\<close>.
\<close>

theorem recovery_from_snapshot:
  "(disk st (metaPath st i) = Some (Json (metaOf up)) \<and> upload_wf up \<longrightarrow>
      (\<exists>up' st'. getUpload (restart st) i = (Some up', st')
          \<and> uid up' = uid up \<and> filename up' = filename up \<and> totalSize up' = totalSize up
          \<and> chunkSize up' = chunkSize up \<and> createdAt up' = createdAt up
          \<and> filePath up' = filePath up \<and> completed up' = completed up
          \<and> len (receivedBitset up') = len (receivedBitset up)
          \<and> BitSet_toArray (receivedBitset up') = m_receivedChunks (metaOf up))
      \<and> fst (getStatus (restart st) i) =
          Inr \<lparr>s_uploadId = i, s_filename = filename up, s_totalSize = totalSize up,
                s_chunkSize = chunkSize up,
                s_totalChunks = ceil_div (totalSize up) (chunkSize up),
                s_receivedChunks = m_receivedChunks (metaOf up),
                s_receivedCount = length (m_receivedChunks (metaOf up))\<rparr>)
   \<and> (uploads st i = None \<and> disk st (metaPath st i) = None \<longrightarrow>
        getUpload st i = (None, st) \<and> getStatus st i = (Inl upload_not_found, st))"
proof (intro conjI impI)
  assume a: "disk st (metaPath st i) = Some (Json (metaOf up)) \<and> upload_wf up"
  let ?b = "BitSet_fromArray (BitSet_toArray (receivedBitset up)) (len (receivedBitset up))"
  have wf: "BitSet_wf (receivedBitset up)"
    using a by (simp add: upload_wf_def)
  have rt: "BitSet_toArray ?b = BitSet_toArray (receivedBitset up)"
    by (rule toArray_roundtrip [OF wf])
  have m: "m_receivedChunks (metaOf up) = BitSet_toArray (receivedBitset up)"
    by (simp add: metaOf_def)
  have g: "getUpload (restart st) i =
      (Some (up\<lparr>receivedBitset := ?b\<rparr>),
       (restart st)\<lparr>uploads := (uploads (restart st))(i \<mapsto> up\<lparr>receivedBitset := ?b\<rparr>),
                    locks := (locks (restart st))(i \<mapsto> {})\<rparr>)"
    using a by (simp add: getUpload_restart)
  show "\<exists>up' st'. getUpload (restart st) i = (Some up', st')
          \<and> uid up' = uid up \<and> filename up' = filename up \<and> totalSize up' = totalSize up
          \<and> chunkSize up' = chunkSize up \<and> createdAt up' = createdAt up
          \<and> filePath up' = filePath up \<and> completed up' = completed up
          \<and> len (receivedBitset up') = len (receivedBitset up)
          \<and> BitSet_toArray (receivedBitset up') = m_receivedChunks (metaOf up)"
    using a g rt m by simp
  show "fst (getStatus (restart st) i) =
          Inr \<lparr>s_uploadId = i, s_filename = filename up, s_totalSize = totalSize up,
                s_chunkSize = chunkSize up,
                s_totalChunks = ceil_div (totalSize up) (chunkSize up),
                s_receivedChunks = m_receivedChunks (metaOf up),
                s_receivedCount = length (m_receivedChunks (metaOf up))\<rparr>"
    using a getStatus_after_getUpload [OF g] rt m by simp
next
  assume "uploads st i = None \<and> disk st (metaPath st i) = None"
  then show "getUpload st i = (None, st)" by (simp add: getUpload_unknown)
next
  assume "uploads st i = None \<and> disk st (metaPath st i) = None"
  then show "getStatus st i = (Inl upload_not_found, st)" by (simp add: getStatus_unknown)
qed


theorem recovery_from_snapshot_witness:
  "fst (getStatus st150f ''u1'') =
     Inr \<lparr>s_uploadId = ''u1'', s_filename = ''movie.bin'', s_totalSize = 150, s_chunkSize = 64,
           s_totalChunks = 3, s_receivedChunks = [2], s_receivedCount = 1\<rparr>
   \<and> uploads st150f ''u2'' = None \<and> disk st150f (metaPath st150f ''u2'') = None
   \<and> getStatus st150f ''u2'' = (Inl upload_not_found, st150f)"
proof -
  let ?up = "\<lparr>uid = ''u1'', filename = ''movie.bin'', totalSize = 150, chunkSize = 64,
           createdAt = 1000, filePath = ''/srv/uploads/movie.bin.u1'', completed = False,
           receivedBitset = \<lparr>len = 3, bytes = [4]\<rparr>\<rparr>"
  let ?st = "flushAllMetadata st150w (\<lambda>i. write_ok)"
  have b: "baseDir ?st = baseDir st150w"
    by (simp add: flushAllMetadata_def flushDirty_def)
  have d: "disk ?st (metaPath ?st ''u1'') = Some (Json (metaOf ?up))"
    using flushAllMetadata_writes [of "''u1''" st150w ?up "\<lambda>i. write_ok"]
    by (simp add: st150w_dirty st150w_upload metaPath_cong [OF b])
  have wf: "upload_wf ?up"
    by (simp add: upload_wf_def BitSet_wf_def ceil_div_def)
  have m: "m_receivedChunks (metaOf ?up) = [2]"
    by (simp add: metaOf_def BitSet_toArray_def bit_defs upt_rec)
  have u2: "uploads st150f ''u2'' = None"
    by (simp add: st150f_def restart_def)
  have d2: "disk st150f (metaPath st150f ''u2'') = None"
    by (simp add: st150f_def restart_def metaPath_def flushAllMetadata_def flushDirty_def
        st150w_dirty st150w_baseDir flushOne_def st150w_upload writeFileAsync_def st150w_disk_u2)
  show ?thesis
    using recovery_from_snapshot [of ?st "''u1''" ?up] recovery_from_snapshot [of st150f "''u2''"]
      d wf m u2 d2
    by (simp add: st150f_def ceil_div_def)
qed

section \<open>The pending set\<close>

text \<open>
  Claim C3. Whenever \<open>writeChunkAt\<close> gets as far as adding the chunk index to the
  pending set of the upload, the index is in that set while the stream runs, and it is out
  of the set when the call ends, whatever the payload and however the stream ends: on
  success, on a transient failure and on any other I/O failure, which are the only ways
  the call can end from there. A later write of the same chunk is therefore never
  rejected as being in progress.
\<close>

theorem pending_cleared_on_every_exit:
  assumes "beginWrite st i offset = (Inr (Acquired up k), st2)"
  shows "(\<exists>ls. locks st2 i = Some ls \<and> k \<in> ls)
       \<and> (\<forall>payload out.
            (\<exists>ls'. locks (snd (writeChunkAt st i offset payload out)) i = Some ls' \<and> k \<notin> ls')
          \<and> (case fst (writeChunkAt st i offset payload out) of
                Inr r \<Rightarrow> \<not> alreadyReceived r
              | Inl e \<Rightarrow> e = transient_write_failure \<or> (\<exists>c. e = io_error c))
          \<and> (\<forall>payload' out'.
                fst (writeChunkAt (snd (writeChunkAt st i offset payload out)) i offset payload' out')
                  \<noteq> Inl chunk_write_in_progress))"
proof -
  from beginWrite_Acquired [OF assms] obtain st1 ls where
    g: "getUpload st i = (Some up, st1)" and l: "locks st1 i = Some ls" and "k \<notin> ls"
    and k: "k = offset div chunkSize up"
    and st2: "st2 = st1\<lparr>locks := (locks st1)(i \<mapsto> insert k ls)\<rparr>"
    by blast
  have l2: "locks st2 i = Some (insert k ls)" by (simp add: st2)
  have w: "writeChunkAt st i offset payload out = settleWrite st2 i up k offset payload out"
    for payload out
    by (simp add: writeChunkAt_def assms)
  have after: "locks (snd (writeChunkAt st i offset payload out)) i = Some (insert k ls - {k})"
    for payload out
    unfolding w by (rule settleWrite_locks [OF l2])
  have retry: "fst (writeChunkAt st' i offset payload' out') \<noteq> Inl chunk_write_in_progress"
    if eq: "st' = snd (writeChunkAt st i offset payload out)" for st' payload out payload' out'
  proof -
    have "uploads st2 i = Some up"
      using getUpload_Some_cached [OF g] by (simp add: st2)
    from settleWrite_uploads [OF this, of k offset payload out] obtain up' where
      u: "uploads st' i = Some up'" and c: "chunkSize up' = chunkSize up"
      unfolding eq w by blast
    have "locks st' i = Some (insert k ls - {k})"
      unfolding eq by (rule after)
    moreover have "offset div chunkSize up' \<notin> insert k ls - {k}"
      using c k by simp
    ultimately show ?thesis
      using u by (rule writeChunkAt_no_conflict [rotated])
  qed
  show ?thesis
    using l2 after settleWrite_result [of st2 i up k offset] retry
    by (simp add: w)
qed


theorem pending_cleared_on_every_exit_witness:
  "(\<exists>up st2. beginWrite st150 ''u1'' 128 = (Inr (Acquired up 2), st2)
       \<and> locks st2 ''u1'' = Some {2})
   \<and> locks (snd (writeChunkAt st150 ''u1'' 128 [1, 2] finish)) ''u1'' = Some {}
   \<and> locks (snd (writeChunkAt st150 ''u1'' 128 [1, 2] (stream_error ''EBADF'' 1))) ''u1'' = Some {}
   \<and> locks (snd (writeChunkAt st150 ''u1'' 128 [1, 2] (stream_error ''ENOSPC'' 0))) ''u1'' = Some {}
   \<and> fst (writeChunkAt st150 ''u1'' 128 [1, 2] (stream_error ''EBADF'' 1)) = Inl transient_write_failure
   \<and> fst (writeChunkAt st150 ''u1'' 128 [1, 2] (stream_error ''ENOSPC'' 0)) = Inl (io_error ''ENOSPC'')"
proof -
  let ?up = "\<lparr>uid = ''u1'', filename = ''movie.bin'', totalSize = 150, chunkSize = 64,
           createdAt = 1000, filePath = ''/srv/uploads/movie.bin.u1'', completed = False,
           receivedBitset = \<lparr>len = 3, bytes = [0]\<rparr>\<rparr>"
  let ?st2 = "st150\<lparr>locks := (locks st150)(''u1'' \<mapsto> {2})\<rparr>"
  have b: "beginWrite st150 ''u1'' 128 = (Inr (Acquired ?up 2), ?st2)"
    by (simp add: beginWrite_def getUpload_cached [OF st150_upload] st150_locks bit_defs Let_def)
  have d: "disk st150 ''/srv/uploads/movie.bin.u1'' = Some (Bytes (replicate 150 0))"
    by (simp add: example_defs op_defs Let_def)
  have e1: "fst (writeChunkAt st150 ''u1'' 128 [1, 2] (stream_error ''EBADF'' 1)) = Inl transient_write_failure"
    by (simp add: writeChunkAt_def b settleWrite_def doWrite_def d)
  have e2: "fst (writeChunkAt st150 ''u1'' 128 [1, 2] (stream_error ''ENOSPC'' 0)) = Inl (io_error ''ENOSPC'')"
    by (simp add: writeChunkAt_def b settleWrite_def doWrite_def d)
  have l: "locks (snd (writeChunkAt st150 ''u1'' 128 [1, 2] out)) ''u1'' = Some {}" for out
    by (simp add: writeChunkAt_def b settleWrite_locks [of ?st2 "''u1''" "{2}"])
  show ?thesis
    using pending_cleared_on_every_exit [OF b] e1 e2 l b by simp
qed

section \<open>The number of chunks\<close>

text \<open>
  Claim C4, as the specification states it, makes the length of the bitmap equal to
  \<open>ceil(totalSize / chunkSize)\<close> for every upload, and has every component agree on
  that number. \<open>createUpload\<close> and \<open>getUpload\<close> take the larger of 1 and the quotient,
  the status handler and \<open>getMissingChunks\<close> take the quotient itself. For an upload of
  an empty file the bitmap has length 1, while the quotient, and the \<open>totalChunks\<close> of
  the status, are 0.
\<close>

theorem bitmap_length_counterexample:
  "fst (createUpload st0 args0 env_ok) = Inr ''u1''
   \<and> len (receivedBitset (the (uploads st_empty ''u1''))) = 1
   \<and> ceil_div (a_totalSize args0) 64 = 0
   \<and> fst (getStatus st_empty ''u1'') =
       Inr \<lparr>s_uploadId = ''u1'', s_filename = ''empty.bin'', s_totalSize = 0, s_chunkSize = 64,
             s_totalChunks = 0, s_receivedChunks = [], s_receivedCount = 0\<rparr>"
proof -
  have "fst (createUpload st0 args0 env_ok) = Inr ''u1''"
    by (simp add: args0_def example_defs op_defs Let_def)
  moreover have "fst (getStatus st_empty ''u1'') =
       Inr \<lparr>s_uploadId = ''u1'', s_filename = ''empty.bin'', s_totalSize = 0, s_chunkSize = 64,
             s_totalChunks = 0, s_receivedChunks = [], s_receivedCount = 0\<rparr>"
    by (simp add: getStatus_cached [OF st_empty_upload] BitSet_toArray_def bit_defs)
  ultimately show ?thesis
    by (simp add: st_empty_upload args0_def ceil_div_def)
qed

text \<open>
  Claim C4, amended. With a positive chunk size, the bitmap of a created descriptor and of
  a descriptor rebuilt from a snapshot has length \<open>max(1, ceil(totalSize / chunkSize))\<close>.
  When the total size is positive as well, that is \<open>ceil(totalSize / chunkSize)\<close>, the
  status reports the same number as \<open>totalChunks\<close>, and \<open>getMissingChunks\<close> searches
  exactly the indices below it. A total size of 150 with a chunk size of 64 gives 3.
\<close>

theorem bitmap_length_and_totalChunks:
  "(createUpload st a env = (Inr i, st')
      \<and> cs = (case a_chunkSize a of None \<Rightarrow> 64 * 1024 * 1024 | Some c \<Rightarrow> c) \<and> 0 < cs \<longrightarrow>
        (\<exists>up. uploads st' i = Some up
           \<and> len (receivedBitset up) = max 1 (ceil_div (a_totalSize a) cs))
        \<and> (0 < a_totalSize a \<longrightarrow> chunks_agree st' i (ceil_div (a_totalSize a) cs)))
   \<and> (uploads st j = None \<and> disk st (metaPath st j) = Some (Json m) \<and> 0 < m_chunkSize m \<longrightarrow>
        (\<exists>up st1. getUpload st j = (Some up, st1)
           \<and> len (receivedBitset up) = max 1 (ceil_div (m_totalSize m) (m_chunkSize m)))
        \<and> (0 < m_totalSize m \<longrightarrow> chunks_agree st j (ceil_div (m_totalSize m) (m_chunkSize m))))
   \<and> ceil_div 150 64 = 3"
proof (intro conjI impI)
  assume a: "createUpload st a env = (Inr i, st')
      \<and> cs = (case a_chunkSize a of None \<Rightarrow> 64 * 1024 * 1024 | Some c \<Rightarrow> c) \<and> 0 < cs"
  let ?up = "\<lparr>uid = i, filename = basename (a_filename a), totalSize = a_totalSize a,
            chunkSize = cs, createdAt = e_now env,
            filePath = dataPath st i (basename (a_filename a)), completed = False,
            receivedBitset = BitSet_new (max 1 (ceil_div (a_totalSize a) cs))\<rparr>"
  have u: "uploads st' i = Some ?up"
    using a createUpload_Inr [of st a env i st'] by simp
  then show "\<exists>up. uploads st' i = Some up
           \<and> len (receivedBitset up) = max 1 (ceil_div (a_totalSize a) cs)"
    by simp
  assume "0 < a_totalSize a"
  then have "max 1 (ceil_div (a_totalSize a) cs) = ceil_div (a_totalSize a) cs"
    using a ceil_div_pos [of "a_totalSize a" cs] by simp
  then show "chunks_agree st' i (ceil_div (a_totalSize a) cs)"
    using chunks_agree_cached [OF u] by simp
next
  assume b: "uploads st j = None \<and> disk st (metaPath st j) = Some (Json m) \<and> 0 < m_chunkSize m"
  let ?up = "\<lparr>uid = m_id m, filename = m_filename m, totalSize = m_totalSize m,
            chunkSize = m_chunkSize m, createdAt = m_createdAt m, filePath = m_filePath m,
            completed = m_completed m,
            receivedBitset = BitSet_fromArray (m_receivedChunks m)
               (max 1 (ceil_div (m_totalSize m) (m_chunkSize m)))\<rparr>"
  from b getUpload_snapshot [of st j m] obtain st1 where
    g: "getUpload st j = (Some ?up, st1)" by blast
  then show "\<exists>up st1. getUpload st j = (Some up, st1)
           \<and> len (receivedBitset up) = max 1 (ceil_div (m_totalSize m) (m_chunkSize m))"
    by simp
  assume "0 < m_totalSize m"
  then have "max 1 (ceil_div (m_totalSize m) (m_chunkSize m)) = ceil_div (m_totalSize m) (m_chunkSize m)"
    using b ceil_div_pos [of "m_totalSize m" "m_chunkSize m"] by simp
  then show "chunks_agree st j (ceil_div (m_totalSize m) (m_chunkSize m))"
    using chunks_agree_loaded [OF g] by simp
next
  show "ceil_div 150 64 = 3" by (simp add: ceil_div_def)
qed

theorem bitmap_length_and_totalChunks_witness:
  "createUpload st0 args150 env_ok = (Inr ''u1'', st150)
   \<and> chunks_agree st150 ''u1'' 3
   \<and> chunks_agree st150f ''u1'' 3"
proof -
  let ?m = "\<lparr>m_id = ''u1'', m_filename = ''movie.bin'', m_totalSize = 150, m_chunkSize = 64,
                 m_createdAt = 1000, m_receivedChunks = [2],
                 m_filePath = ''/srv/uploads/movie.bin.u1'', m_completed = False\<rparr>"
  have c: "ceil_div 150 64 = 3" by (simp add: ceil_div_def)
  show ?thesis
    using bitmap_length_and_totalChunks [of st0 args150 env_ok "''u1''" st150 64]
      bitmap_length_and_totalChunks [where st = st150f and j = "''u1''" and m = ?m]
      st150_create st150f_upload st150f_disk c
    by (simp add: args150_def)
qed

section \<open>The completion gate\<close>

text \<open>
  Claim C5. For a cached descriptor with the bitmap length that creation and loading
  establish, let \<open>missing\<close> be the indices below \<open>ceil(totalSize / chunkSize)\<close> that are
  not among the received chunks. If \<open>missing\<close> is not empty, completing the upload fails
  with exactly that list and changes nothing. Otherwise it succeeds, the descriptor is
  marked completed, the identifier is dirty and the flush timer is armed. With ten chunks
  of which 0, 1, 2 and 5 have arrived, the list is 3, 4, 6, 7, 8, 9.
\<close>

theorem complete_gate:
  assumes "uploads st i = Some up" and "upload_wf up"
  shows "(let missing = filter (\<lambda>k. k \<notin> set (BitSet_toArray (receivedBitset up)))
                          [0..<ceil_div (totalSize up) (chunkSize up)]
          in if missing \<noteq> []
             then completeUpload st i = (Inl (missing_chunks missing), st)
             else (\<exists>st'. completeUpload st i = (Inr (filePath up), st')
                     \<and> uploads st' i = Some (up\<lparr>completed := True\<rparr>)
                     \<and> i \<in> set (dirty st') \<and> debounceTimer st'
                     \<and> disk st' = disk st \<and> locks st' = locks st))"
proof -
  let ?m = "filter (\<lambda>k. k \<notin> set (BitSet_toArray (receivedBitset up)))
              [0..<ceil_div (totalSize up) (chunkSize up)]"
  have g: "getMissingChunks st i = (?m, st)"
    using assms by (simp add: getMissingChunks_cached missing_is_complement)
  show ?thesis
  proof (cases "?m = []")
    case True
    then have "completeUpload st i =
        (Inr (filePath up), scheduleFlush (st\<lparr>uploads := (uploads st)(i \<mapsto> up\<lparr>completed := True\<rparr>)\<rparr>) i)"
      using assms(1) g by (simp add: completeUpload_def getUpload_cached markCompleted_cached)
    then show ?thesis
      using True by (simp add: scheduleFlush_def Let_def)
  next
    case False
    then have "completeUpload st i = (Inl (missing_chunks ?m), st)"
      using assms(1) g by (simp add: completeUpload_def getUpload_cached)
    then show ?thesis
      using False by (simp add: Let_def)
  qed
qed

theorem complete_gate_witness:
  "completeUpload st640 ''u1'' = (Inl (missing_chunks [3, 4, 6, 7, 8, 9]), st640)
   \<and> (\<exists>st'. completeUpload st150c ''u1'' = (Inr ''/srv/uploads/movie.bin.u1'', st')
         \<and> completed (the (uploads st' ''u1'')) \<and> ''u1'' \<in> set (dirty st') \<and> debounceTimer st')"
proof -
  let ?a = "\<lparr>uid = ''u1'', filename = ''data.bin'', totalSize = 640, chunkSize = 64,
           createdAt = 1000, filePath = ''/srv/uploads/data.bin.u1'', completed = False,
           receivedBitset = \<lparr>len = 10, bytes = [39, 0]\<rparr>\<rparr>"
  let ?b = "\<lparr>uid = ''u1'', filename = ''movie.bin'', totalSize = 150, chunkSize = 64,
           createdAt = 1000, filePath = ''/srv/uploads/movie.bin.u1'', completed = False,
           receivedBitset = \<lparr>len = 3, bytes = [7]\<rparr>\<rparr>"
  have wa: "upload_wf ?a" and wb: "upload_wf ?b"
    by (simp_all add: upload_wf_def BitSet_wf_def ceil_div_def)
  have ma: "filter (\<lambda>k. k \<notin> set (BitSet_toArray (receivedBitset ?a)))
              [0..<ceil_div (totalSize ?a) (chunkSize ?a)] = [3, 4, 6, 7, 8, 9]"
    by (simp add: BitSet_toArray_def bit_defs upt_rec)
  have mb: "filter (\<lambda>k. k \<notin> set (BitSet_toArray (receivedBitset ?b)))
              [0..<ceil_div (totalSize ?b) (chunkSize ?b)] = []"
    by (simp add: BitSet_toArray_def bit_defs upt_rec)
  show ?thesis
    using complete_gate [OF st640_upload wa, unfolded ma]
      complete_gate [OF st150c_upload wb, unfolded mb]
    by auto
qed

section \<open>Creation that fails\<close>




section \<open>Indices outside the bitmap\<close>

text \<open>
  Claim C7, as the specification states it, asks for an explicit bound check: \<open>set(i)\<close>
  with \<open>i\<close> outside \<open>[0, length)\<close> must not alter any bit that \<open>has\<close> can observe.
  The class has no such check. In a bitmap of length 3 (one byte), \<open>set(5)\<close> stores bit 5
  of that byte, and \<open>has(5)\<close> turns from false to true.
\<close>

theorem set_unchecked_counterexample:
  "\<not> 5 < len (BitSet_new 3) \<and> \<not> BitSet_has (BitSet_new 3) 5 \<and>
   BitSet_has (BitSet_set (BitSet_new 3) 5) 5"
  by (simp add: bit_defs)

text \<open>
  Claim C7, amended. The only limit is the byte array. For every \<open>i\<close> at or beyond the
  length and below \<open>2 ^ 34\<close> (where the 32-bit byte index does not wrap), \<open>set(i)\<close> leaves
  \<open>toArray\<close> and \<open>has(j)\<close> for every \<open>j\<close> below the length unchanged; when \<open>i\<close> lies
  beyond the last byte, \<open>set(i)\<close> changes nothing and \<open>has(i)\<close> is false. \<open>has\<close> is false
  everywhere on a new bitmap, and, among indices below \<open>2 ^ 34\<close>, false for every index
  that was never set.
\<close>

theorem set_outside_length:
  assumes "len b \<le> i" and "i < 2 ^ 34"
  shows "BitSet_toArray (BitSet_set b i) = BitSet_toArray b
       \<and> (\<forall>j. j < len b \<longrightarrow> BitSet_has (BitSet_set b i) j = BitSet_has b j)
       \<and> (8 * length (bytes b) \<le> i \<longrightarrow> BitSet_set b i = b \<and> \<not> BitSet_has b i)
       \<and> (\<forall>n j. \<not> BitSet_has (BitSet_new n) j)
       \<and> (\<forall>arr n j. (\<forall>k\<in>set arr. k < 2 ^ 34) \<and> j < 2 ^ 34 \<and> j \<notin> set arr
             \<longrightarrow> \<not> BitSet_has (BitSet_fromArray arr n) j)"
proof -
  have inner: "BitSet_has (BitSet_set b i) j = BitSet_has b j" if "j < len b" for j
  proof -
    from that assms have "j < 2 ^ 34" "j \<noteq> i" by simp_all
    then have "\<not> same_slot i j" using assms(2) by (simp add: same_slot_small)
    then show ?thesis by (simp add: has_set)
  qed
  have arr: "BitSet_toArray (BitSet_set b i) = BitSet_toArray b"
    unfolding BitSet_toArray_def len_set
    by (rule filter_cong) (simp_all add: inner)
  have beyond: "BitSet_set b i = b \<and> \<not> BitSet_has b i" if "8 * length (bytes b) \<le> i"
  proof -
    have "byteIndex i = int (i div 8)" using assms(2) by (rule byteIndex_small)
    moreover have "length (bytes b) \<le> i div 8" using that by simp
    ultimately have "\<not> slot_ok b i" by (simp add: slot_ok_def)
    then show ?thesis using set_no_slot has_slot_ok by blast
  qed
  have fresh: "\<not> BitSet_has (BitSet_fromArray arr n) j"
    if "\<forall>k\<in>set arr. k < 2 ^ 34" "j < 2 ^ 34" "j \<notin> set arr" for arr n j
    using that by (auto simp add: has_fromArray same_slot_small)
  show ?thesis
    using inner arr beyond fresh by simp
qed

theorem set_outside_length_witness:
  "len (BitSet_new 3) \<le> 9 \<and> (9 :: nat) < 2 ^ 34 \<and>
   BitSet_toArray (BitSet_set (BitSet_new 3) 9) = BitSet_toArray (BitSet_new 3) \<and>
   BitSet_set (BitSet_new 3) 9 = BitSet_new 3 \<and> \<not> BitSet_has (BitSet_new 3) 9 \<and>
   \<not> BitSet_has (BitSet_fromArray [0, 2] 3) 1"
proof -
  have h1: "len (BitSet_new 3) \<le> 9" by simp
  have h2: "(9 :: nat) < 2 ^ 34" by simp
  have h3: "8 * length (bytes (BitSet_new 3)) \<le> 9" by (simp add: ceil_div_def)
  have h4: "(\<forall>k\<in>set [0, 2 :: nat]. k < 2 ^ 34) \<and> (1 :: nat) < 2 ^ 34 \<and> (1 :: nat) \<notin> set [0, 2]"
    by simp
  from set_outside_length [OF h1 h2] h3 h4 show ?thesis
    using h1 h2 by blast
qed

section \<open>Abort\<close>





section \<open>Unknown identifiers\<close>

text \<open>
  Claim C9. For an identifier that is neither cached nor present in the snapshot store,
  \<open>getMissingChunks\<close> and \<open>getReceivedChunksArray\<close> return the empty list instead of
  failing, and leave the state as it was: at this interface an unknown upload looks like
  one with nothing missing.
\<close>

theorem unknown_id_yields_empty_lists:
  assumes "uploads st i = None" and "disk st (metaPath st i) = None"
  shows "getMissingChunks st i = ([], st) \<and> getReceivedChunksArray st i = ([], st)"
  using assms by (simp add: getMissingChunks_def getReceivedChunksArray_def getUpload_unknown)

theorem unknown_id_yields_empty_lists_witness:
  "uploads st150 ''u2'' = None \<and> disk st150 (metaPath st150 ''u2'') = None \<and>
   getMissingChunks st150 ''u2'' = ([], st150) \<and> getReceivedChunksArray st150 ''u2'' = ([], st150)"
proof -
  have h1: "uploads st150 ''u2'' = None"
    by (simp add: example_defs op_defs Let_def)
  have h2: "disk st150 (metaPath st150 ''u2'') = None"
    by (simp add: example_defs op_defs Let_def)
  show ?thesis
    using unknown_id_yields_empty_lists [OF h1 h2] h1 h2 by simp
qed

section \<open>Received chunks only grow\<close>

text \<open>
  Claim C10. Take an upload whose descriptor is cached, and any sequence of operations
  none of which aborts that upload (identifiers drawn for new uploads are fresh, so none
  is the identifier of this one). After the sequence the descriptor is still cached, every
  index that its bitmap held is still held, and the list of received chunks contains the
  earlier one: no operation clears a bit.
\<close>

theorem received_chunks_only_grow:
  assumes "uploads st i = Some up" and "\<forall>op\<in>set ops. keeps i op"
  shows "\<exists>up'. uploads (run st ops) i = Some up'
           \<and> (\<forall>k. BitSet_has (receivedBitset up) k \<longrightarrow> BitSet_has (receivedBitset up') k)
           \<and> set (BitSet_toArray (receivedBitset up)) \<subseteq> set (BitSet_toArray (receivedBitset up'))"
proof -
  have "\<exists>up'. uploads (run st ops) i = Some up'
           \<and> len (receivedBitset up') = len (receivedBitset up)
           \<and> (\<forall>k. BitSet_has (receivedBitset up) k \<longrightarrow> BitSet_has (receivedBitset up') k)"
    using assms
  proof (induction ops arbitrary: st up)
    case Nil
    then show ?case by (simp add: run_def)
  next
    case (Cons op ops)
    from step_keeps [of st i up op] Cons.prems obtain up1 where
      s: "uploads (step st op) i = Some up1"
        "len (receivedBitset up1) = len (receivedBitset up)"
        "\<forall>k. BitSet_has (receivedBitset up) k \<longrightarrow> BitSet_has (receivedBitset up1) k"
      by auto
    from Cons.IH [OF s(1)] Cons.prems(2) obtain up' where
      "uploads (run (step st op) ops) i = Some up'"
      "len (receivedBitset up') = len (receivedBitset up1)"
      "\<forall>k. BitSet_has (receivedBitset up1) k \<longrightarrow> BitSet_has (receivedBitset up') k"
      by auto
    then show ?case using s by (auto simp add: run_def)
  qed
  then show ?thesis
    by (auto simp add: mem_toArray)
qed

theorem received_chunks_only_grow_witness:
  "\<exists>up'. uploads (run st150w ops_example) ''u1'' = Some up'
         \<and> BitSet_has (receivedBitset up') 2
         \<and> 2 \<in> set (BitSet_toArray (receivedBitset up'))"
proof -
  let ?up = "\<lparr>uid = ''u1'', filename = ''movie.bin'', totalSize = 150, chunkSize = 64,
           createdAt = 1000, filePath = ''/srv/uploads/movie.bin.u1'', completed = False,
           receivedBitset = \<lparr>len = 3, bytes = [4]\<rparr>\<rparr>"
  have k: "\<forall>op\<in>set ops_example. keeps ''u1'' op"
    by (simp add: ops_example_def env_ok_def)
  have h: "BitSet_has (receivedBitset ?up) 2"
    by (simp add: bit_defs)
  have t: "2 \<in> set (BitSet_toArray (receivedBitset ?up))"
    by (simp add: mem_toArray bit_defs)
  from received_chunks_only_grow [OF st150w_upload k] h t show ?thesis
    by blast
qed

end
